theory Spec2Isabelle
  imports
    Main
    "HOL-Library.Multiset"
    "HOL-Library.Sublist"
    "HOL-Library.Char_ord"
    "HOL-Library.List_Lexorder"
begin

section \<open>The email verifier: data model\<close>

text \<open>
  The verifier (package \<open>main\<close>, functions \<open>checkDomain\<close> and \<open>main\<close>) is embedded
  shallowly. Go strings are byte sequences, modelled as \<open>string\<close> (a list of
  \<open>char\<close>, one per byte). The struct \<open>Result\<close> becomes a record; the field
  \<open>Domain\<close> is written \<open>Domain'\<close> because \<open>Domain\<close> is the domain of a relation in HOL.
  \<open>LatencyMs\<close> is an \<open>int64\<close> holding a number of milliseconds derived from an
  \<open>int64\<close> number of nanoseconds, so it cannot overflow and is an \<open>int\<close> here.
\<close>

record Result =
  Domain' :: string
  HasMX :: bool
  MXHosts :: "string list"
  HasSPF :: bool
  SPF :: string
  HasDMARC :: bool
  DMARC :: string
  SMTPReach :: bool
  LatencyMs :: int
  Error :: string

text \<open>\<open>Result{Domain: domain}\<close>: every other field has Go's zero value.\<close>

definition newResult :: "string \<Rightarrow> Result" where
  "newResult domain =
     \<lparr>Domain' = domain, HasMX = False, MXHosts = [], HasSPF = False, SPF = [],
      HasDMARC = False, DMARC = [], SMTPReach = False, LatencyMs = 0, Error = []\<rparr>"

subsection \<open>The network, as the verifier sees it\<close>

text \<open>
  \<open>net.MX\<close> has a host and a preference. A Go call returning \<open>(value, error)\<close> is a
  pair whose second component is \<open>None\<close> for \<open>nil\<close> and \<open>Some text\<close> for an error
  with that \<open>Error()\<close> text; \<open>net.LookupMX\<close> may return records together with an
  error, so both components are kept.

  One \<open>br.ReadString('\n')\<close> returns such a pair too. A connection is what the peer
  does on it: the results of the successive reads, and the duration that
  \<open>time.Since(start)\<close> measures once the connection is closed. The deadline set on
  the connection (6 seconds) lets only finitely many reads succeed; every read after
  the listed ones fails.

  \<open>DialContext\<close> gets the number of attempts made before it in the same call of
  \<open>checkDomain\<close>, since the network may answer the same address differently over time.
\<close>

record MX =
  Host :: string
  Pref :: nat

type_synonym read = "string \<times> string option"

record conn =
  rx :: "read list"
  since :: int

record env =
  LookupMX :: "string \<Rightarrow> MX list \<times> string option"
  LookupTXT :: "string \<Rightarrow> string list \<times> string option"
  DialContext :: "nat \<Rightarrow> string \<Rightarrow> string + conn"

text \<open>What the verifier does to the outside world, in order.\<close>

datatype event =
    EvLookupMX string
  | EvLookupTXT string
  | EvDial string
  | EvRead read
  | EvWrite string
  | EvClose

subsection \<open>Library functions of package \<open>strings\<close>, \<open>net\<close> and \<open>time\<close>\<close>

definition HasPrefix :: "string \<Rightarrow> string \<Rightarrow> bool" where
  "HasPrefix s pre = (length s \<ge> length pre \<and> take (length pre) s = pre)"

definition HasSuffix :: "string \<Rightarrow> string \<Rightarrow> bool" where
  "HasSuffix s suf = (length s \<ge> length suf \<and> drop (length s - length suf) s = suf)"

definition TrimSuffix :: "string \<Rightarrow> string \<Rightarrow> string" where
  "TrimSuffix s suf = (if HasSuffix s suf then take (length s - length suf) s else s)"

text \<open>\<open>net.JoinHostPort\<close> brackets a host that contains a colon.\<close>

definition JoinHostPort :: "string \<Rightarrow> string \<Rightarrow> string" where
  "JoinHostPort host port =
     (if CHR '':'' \<in> set host then ''['' @ host @ '']:'' @ port else host @ '':'' @ port)"

text \<open>\<open>Duration.Milliseconds\<close>: nanoseconds to milliseconds, truncated towards zero.\<close>

definition Milliseconds :: "int \<Rightarrow> int" where
  "Milliseconds d = (if d < 0 then - ((- d) div 1000000) else d div 1000000)"

definition CRLF :: string where
  "CRLF = [CHR 0x0D, CHR 0x0A]"

section \<open>\<open>checkDomain\<close>\<close>

subsection \<open>The loops\<close>

text \<open>Lines 248 to 251: one host appended for each MX record.\<close>

fun mxLoop :: "MX list \<Rightarrow> Result \<Rightarrow> Result" where
  "mxLoop [] res = res"
| "mxLoop (mx # rest) res =
     mxLoop rest (res\<lparr>MXHosts := MXHosts res @ [TrimSuffix (Host mx) ''.'']\<rparr>)"

text \<open>Lines 257 to 263 and 270 to 276: scan the TXT records, stop at the first match.\<close>

fun spfLoop :: "string list \<Rightarrow> Result \<Rightarrow> Result" where
  "spfLoop [] res = res"
| "spfLoop (record # rest) res =
     (if HasPrefix record ''v=spf1'' then res\<lparr>HasSPF := True, SPF := record\<rparr>
      else spfLoop rest res)"

fun dmarcLoop :: "string list \<Rightarrow> Result \<Rightarrow> Result" where
  "dmarcLoop [] res = res"
| "dmarcLoop (record # rest) res =
     (if HasPrefix record ''v=DMARC1'' then res\<lparr>HasDMARC := True, DMARC := record\<rparr>
      else dmarcLoop rest res)"

text \<open>
  Lines 304 to 312: read the reply to EHLO. The reader is the list of reads still to
  come; reading from the empty list is the read that fails at the deadline. The loop
  returns the lines it has read without error and the reader it leaves behind.
\<close>

definition lastLine :: "string \<Rightarrow> bool" where
  "lastLine line = (length line < 4 \<or> line ! 3 \<noteq> CHR ''-'')"

fun readLoop :: "read list \<Rightarrow> string list \<times> read list" where
  "readLoop [] = ([], [])"
| "readLoop ((line, err) # rest) =
     (if err \<noteq> None then ([], rest)
      else if lastLine line then ([line], rest)
      else (case readLoop rest of (ls, rest') \<Rightarrow> (line # ls, rest')))"

text \<open>
  Lines 297 to 314 on one connection: read and drop the greeting, send EHLO, read the
  reply, send QUIT, close. Neither the reads nor the writes change the result.
\<close>

definition ReadString :: "read list \<Rightarrow> read \<times> read list" where
  "ReadString br = (case br of [] \<Rightarrow> (([], Some ''i/o timeout''), []) | r # rest \<Rightarrow> (r, rest))"

definition handshake :: "conn \<Rightarrow> event list" where
  "handshake c =
     (case ReadString (rx c) of (greet, br) \<Rightarrow>
        [EvRead greet, EvWrite (''EHLO example.com'' @ CRLF)]
        @ map (\<lambda>l. EvRead (l, None)) (fst (readLoop br))
        @ [EvWrite (''QUIT'' @ CRLF), EvClose])"

text \<open>
  Lines 286 to 319: the targets in order. The state of the loop is the result, the
  variable \<open>lastErr\<close> and the events so far; \<open>k\<close> counts the attempts.
\<close>

fun probeLoop ::
  "env \<Rightarrow> nat \<Rightarrow> string list \<Rightarrow> Result \<times> string option \<times> event list
     \<Rightarrow> Result \<times> string option \<times> event list" where
  "probeLoop e k [] st = st"
| "probeLoop e k (h # rest) (res, lastErr, tr) =
     (let addr = JoinHostPort h ''25'' in
      case DialContext e k addr of
        Inl err \<Rightarrow> probeLoop e (Suc k) rest (res, Some err, tr @ [EvDial addr])
      | Inr c \<Rightarrow>
          (res\<lparr>SMTPReach := True, LatencyMs := Milliseconds (since c)\<rparr>, None,
           tr @ [EvDial addr] @ handshake c))"

subsection \<open>The function\<close>

text \<open>
  Lines 241 to 326 in three parts: the three lookups (lines 242 to 277), the choice of
  the targets (lines 281 to 284), and the whole function, which returns the result
  together with the events of the call. \<open>checkDomain\<close> is the result alone.
\<close>

definition dnsStage :: "env \<Rightarrow> string \<Rightarrow> Result" where
  "dnsStage e domain =
     (let res = newResult domain;
          (mxRecords, err) = LookupMX e domain;
          res = (if err = None \<and> length mxRecords > 0
                 then mxLoop mxRecords (res\<lparr>HasMX := True\<rparr>) else res);
          (txtRecords, err) = LookupTXT e domain;
          res = (if err = None then spfLoop txtRecords res else res);
          dmarcDomain = ''_dmarc.'' @ domain;
          (dmarcTxtRecords, err) = LookupTXT e dmarcDomain;
          res = (if err = None then dmarcLoop dmarcTxtRecords res else res)
      in res)"

definition probeTargets :: "Result \<Rightarrow> string \<Rightarrow> string list" where
  "probeTargets res domain =
     (let targets = MXHosts res in if length targets = 0 then [domain] else targets)"

definition checkDomainIO :: "env \<Rightarrow> string \<Rightarrow> bool \<Rightarrow> Result \<times> event list" where
  "checkDomainIO e domain smtpCheck =
     (let res = dnsStage e domain;
          tr = [EvLookupMX domain, EvLookupTXT domain, EvLookupTXT (''_dmarc.'' @ domain)]
      in if smtpCheck then
           (case probeLoop e 0 (probeTargets res domain) (res, None, tr) of
              (res, lastErr, tr) \<Rightarrow>
                (case lastErr of
                   Some err \<Rightarrow> (res\<lparr>Error := err\<rparr>, tr)
                 | None \<Rightarrow> (res, tr)))
         else (res, tr))"

definition checkDomain :: "env \<Rightarrow> string \<Rightarrow> bool \<Rightarrow> Result" where
  "checkDomain e domain smtpCheck = fst (checkDomainIO e domain smtpCheck)"

subsection \<open>Notions used to state the properties\<close>

text \<open>
  None of these is part of the program. \<open>continuation\<close> and \<open>stripDot\<close> say in the
  words of the specification what \<open>lastLine\<close> and \<open>TrimSuffix\<close> compute.
\<close>

text \<open>The attempt that the loop makes for the target at position \<open>i\<close> of its list.\<close>

definition attempt :: "env \<Rightarrow> string list \<Rightarrow> nat \<Rightarrow> string + conn" where
  "attempt e targets i = DialContext e i (JoinHostPort (targets ! i) ''25'')"

text \<open>The targets that a call with \<open>smtpCheck = true\<close> probes.\<close>

definition targets :: "env \<Rightarrow> string \<Rightarrow> string list" where
  "targets e d = probeTargets (dnsStage e d) d"

text \<open>The attempt on every target fails.\<close>

definition allFail :: "env \<Rightarrow> string \<Rightarrow> bool" where
  "allFail e d = (\<forall>i<length (targets e d). isl (attempt e (targets e d) i))"

text \<open>A continuation line of a multi-line SMTP reply has \<open>-\<close> as its fourth character.\<close>

fun continuation :: "string \<Rightarrow> bool" where
  "continuation (a # b # c # x # rest) = (x = CHR ''-'')"
| "continuation line = False"

text \<open>A host name without one trailing dot.\<close>

definition stripDot :: "string \<Rightarrow> string" where
  "stripDot h = (if h \<noteq> [] \<and> last h = CHR ''.'' then butlast h else h)"

section \<open>\<open>main\<close>: workers, collector and sort\<close>

text \<open>
  Lines 133 to 196. The goroutines of \<open>main\<close> are the dispatcher (lines 181 to 186),
  \<open>concurrency\<close> workers (lines 151 to 163), the collector (lines 171 to 179) and
  \<open>main\<close> itself. The channels \<open>jobs\<close> and \<open>results\<close> are unbuffered, so a send and
  its receive are one step. Each goroutine is at one of its blocking points:

  \<^item> a worker waits for a job (\<open>WRecv\<close>), waits for the ticker with a job in hand
    (\<open>WTick\<close>, only when \<open>tick\<close> is not nil), is about to call \<open>checkDomain\<close>
    (\<open>WCheck\<close>), waits to send its result (\<open>WSend\<close>), or has returned (\<open>WDone\<close>);
  \<^item> the collector waits for a result (\<open>CRecv\<close>), holds one it has not appended yet
    (\<open>CAppend\<close>), or has closed \<open>done\<close> (\<open>CDone\<close>);
  \<^item> \<open>main\<close> is in \<open>wg.Wait()\<close> (\<open>MWait\<close>), has closed \<open>results\<close> and waits for
    \<open>done\<close> (\<open>MClosed\<close>), or has sorted \<open>collected\<close> and hands it to the encoder
    (\<open>MEmit\<close>).
\<close>

datatype worker = WRecv | WTick string | WCheck string | WSend Result | WDone

datatype collector = CRecv | CAppend Result | CDone

datatype mainpc = MWait | MClosed | MEmit

record pipeline =
  smtpCheck :: bool
  tick :: bool
  queue :: "string list"
  jobsClosed :: bool
  workers :: "worker list"
  collector :: collector
  collected :: "Result list"
  resultsClosed :: bool
  mainAt :: mainpc

text \<open>
  Go compares strings byte by byte, a proper prefix being smaller: the \<open>less\<close>
  function handed to \<open>sort.Slice\<close> on line 196.
\<close>

fun lessString :: "string \<Rightarrow> string \<Rightarrow> bool" where
  "lessString [] [] = False"
| "lessString [] (y # ys) = True"
| "lessString (x # xs) [] = False"
| "lessString (x # xs) (y # ys) =
     (if (of_char x :: nat) < of_char y then True
      else if (of_char y :: nat) < of_char x then False
      else lessString xs ys)"

definition byDomain :: "Result \<Rightarrow> Result \<Rightarrow> bool" where
  "byDomain a b = lessString (Domain' a) (Domain' b)"

text \<open>
  One step of one goroutine. \<open>sort.Slice\<close> is not stable: all that is known of its
  result is that it permutes the slice and that no element is less than an earlier
  one. A worker's call of \<open>checkDomain\<close> sees the network of that moment, so each
  call has an environment of its own, and the call returns (the resolver and the
  dialer give up after their timeouts). A send on \<open>results\<close> happens only while the
  channel is open (a send on a closed channel would panic). The ticker keeps ticking,
  so a worker that waits for it goes on.
\<close>

inductive step :: "pipeline \<Rightarrow> pipeline \<Rightarrow> bool" where
  send_job:
    "queue s = d # ds \<Longrightarrow> workers s = ws1 @ WRecv # ws2 \<Longrightarrow>
     step s (s\<lparr>queue := ds,
               workers := ws1 @ (if tick s then WTick d else WCheck d) # ws2\<rparr>)"
| close_jobs:
    "queue s = [] \<Longrightarrow> \<not> jobsClosed s \<Longrightarrow> step s (s\<lparr>jobsClosed := True\<rparr>)"
| worker_done:
    "jobsClosed s \<Longrightarrow> queue s = [] \<Longrightarrow> workers s = ws1 @ WRecv # ws2 \<Longrightarrow>
     step s (s\<lparr>workers := ws1 @ WDone # ws2\<rparr>)"
| recv_tick:
    "workers s = ws1 @ WTick d # ws2 \<Longrightarrow>
     step s (s\<lparr>workers := ws1 @ WCheck d # ws2\<rparr>)"
| check:
    "workers s = ws1 @ WCheck d # ws2 \<Longrightarrow>
     step s (s\<lparr>workers := ws1 @ WSend (checkDomain e d (smtpCheck s)) # ws2\<rparr>)"
| send_result:
    "workers s = ws1 @ WSend r # ws2 \<Longrightarrow> collector s = CRecv \<Longrightarrow> \<not> resultsClosed s \<Longrightarrow>
     step s (s\<lparr>workers := ws1 @ WRecv # ws2, collector := CAppend r\<rparr>)"
| append_result:
    "collector s = CAppend r \<Longrightarrow>
     step s (s\<lparr>collected := collected s @ [r], collector := CRecv\<rparr>)"
| wait_close:
    "mainAt s = MWait \<Longrightarrow> list_all (\<lambda>w. w = WDone) (workers s) \<Longrightarrow>
     step s (s\<lparr>resultsClosed := True, mainAt := MClosed\<rparr>)"
| collector_done:
    "collector s = CRecv \<Longrightarrow> resultsClosed s \<Longrightarrow> step s (s\<lparr>collector := CDone\<rparr>)"
| sort_emit:
    "mainAt s = MClosed \<Longrightarrow> collector s = CDone \<Longrightarrow>
     mset out = mset (collected s) \<Longrightarrow> sorted_wrt (\<lambda>a b. \<not> byDomain b a) out \<Longrightarrow>
     step s (s\<lparr>collected := out, mainAt := MEmit\<rparr>)"

text \<open>
  Lines 133 to 163, before any goroutine runs: \<open>main\<close> returns when there is no domain;
  \<open>time.NewTicker\<close> panics when its interval \<open>time.Second / time.Duration(rate)\<close>
  is not positive; a loop \<open>for i := 0; i < concurrency; i++\<close> starts the workers.
\<close>

datatype startup = NoDomains | TickerPanic | Started pipeline

definition Second :: int where
  "Second = 1000000000"

definition start :: "string list \<Rightarrow> bool \<Rightarrow> int \<Rightarrow> int \<Rightarrow> startup" where
  "start domains smtp concurrency rate =
     (if length domains = 0 then NoDomains
      else if rate > 0 \<and> Second div rate \<le> 0 then TickerPanic
      else Started
        \<lparr>smtpCheck = smtp, tick = (rate > 0), queue = domains, jobsClosed = False,
         workers = replicate (nat concurrency) WRecv, collector = CRecv, collected = [],
         resultsClosed = False, mainAt = MWait\<rparr>)"

text \<open>
  What a run hands to the encoder: nothing at all after a panic, no outcome when
  there was no domain, and otherwise \<open>collected\<close> once \<open>main\<close> has sorted it.
\<close>

inductive emits :: "startup \<Rightarrow> Result list \<Rightarrow> bool" where
  emits_none: "emits NoDomains []"
| emits_sorted: "step\<^sup>*\<^sup>* s0 s \<Longrightarrow> mainAt s = MEmit \<Longrightarrow> emits (Started s0) (collected s)"

subsection \<open>Notions used to state and prove the properties of the pipeline\<close>

text \<open>
  The domains that are under way: still with the dispatcher, in the hands of a worker,
  or in the hand of the collector. \<open>outcomes\<close> are the results that exist in a state.
  \<open>inv\<close> is what holds in every state that a run reaches; \<open>weight\<close> decreases
  with every step.
\<close>

fun held :: "worker \<Rightarrow> string list" where
  "held (WTick d) = [d]"
| "held (WCheck d) = [d]"
| "held (WSend r) = [Domain' r]"
| "held w = []"

fun heldC :: "collector \<Rightarrow> string list" where
  "heldC (CAppend r) = [Domain' r]"
| "heldC c = []"

definition pending :: "pipeline \<Rightarrow> string multiset" where
  "pending s = mset (queue s) + mset (concat (map held (workers s))) + mset (heldC (collector s))"

fun made :: "worker \<Rightarrow> Result list" where
  "made (WSend r) = [r]"
| "made w = []"

fun madeC :: "collector \<Rightarrow> Result list" where
  "madeC (CAppend r) = [r]"
| "madeC c = []"

definition outcomes :: "pipeline \<Rightarrow> Result set" where
  "outcomes s = set (concat (map made (workers s))) \<union> set (madeC (collector s)) \<union> set (collected s)"

definition inv :: "string list \<Rightarrow> pipeline \<Rightarrow> bool" where
  "inv domains s =
     (pending s + mset (map Domain' (collected s)) = mset domains \<and>
      (jobsClosed s \<longrightarrow> queue s = []) \<and>
      (WDone \<in> set (workers s) \<longrightarrow> jobsClosed s) \<and>
      (mainAt s \<noteq> MWait \<longrightarrow> list_all (\<lambda>w. w = WDone) (workers s)) \<and>
      (resultsClosed s = (mainAt s \<noteq> MWait)) \<and>
      (collector s = CDone \<longrightarrow> resultsClosed s) \<and>
      (mainAt s = MEmit \<longrightarrow>
         collector s = CDone \<and> sorted_wrt (\<lambda>a b. \<not> byDomain b a) (collected s)) \<and>
      (\<forall>r\<in>outcomes s. \<exists>e. r = checkDomain e (Domain' r) (smtpCheck s)) \<and>
      (\<not> tick s \<longrightarrow> (\<forall>d. WTick d \<notin> set (workers s))))"

fun weightW :: "worker \<Rightarrow> nat" where
  "weightW WRecv = 1"
| "weightW (WTick d) = 6"
| "weightW (WCheck d) = 5"
| "weightW (WSend r) = 4"
| "weightW WDone = 0"

fun weightC :: "collector \<Rightarrow> nat" where
  "weightC CRecv = 1"
| "weightC (CAppend r) = 3"
| "weightC CDone = 0"

fun weightM :: "mainpc \<Rightarrow> nat" where
  "weightM MWait = 2"
| "weightM MClosed = 1"
| "weightM MEmit = 0"

definition weight :: "pipeline \<Rightarrow> nat" where
  "weight s = 7 * length (queue s) + (if jobsClosed s then 0 else 1)
     + sum_list (map weightW (workers s)) + weightC (collector s) + weightM (mainAt s)"

section \<open>Example networks\<close>

text \<open>
  Concrete networks on which the properties below are exercised. In \<open>exampleNet\<close> the
  domain \<open>example.com\<close> has three mail exchangers, of which only the second accepts a
  connection; \<open>plain.org\<close> has TXT records but no policy; every other name fails to
  resolve and every other address refuses the connection. \<open>otherNet\<close> agrees with
  \<open>exampleNet\<close> on the TXT records of \<open>_dmarc.example.com\<close> and on nothing else.
  \<open>shiftedNet\<close> agrees with \<open>exampleNet\<close> on every lookup and on the address
  \<open>nowhere.net:25\<close>, and accepts a connection to every other address.
\<close>

definition exampleConn :: conn where
  "exampleConn =
     \<lparr>rx = [(''220 ready'', None), (''250-one'', None), (''250 two'', None), (''500 x'', None)],
      since = 12345678\<rparr>"

definition exampleNet :: env where
  "exampleNet =
     \<lparr>LookupMX = (\<lambda>d.
        if d = ''example.com''
        then ([\<lparr>Host = ''mx1.example.com.'', Pref = 10\<rparr>,
               \<lparr>Host = ''mx2.example.com'', Pref = 20\<rparr>,
               \<lparr>Host = ''mx3.example.com..'', Pref = 30\<rparr>], None)
        else ([], Some ''lookup: no such host'')),
      LookupTXT = (\<lambda>d.
        if d = ''example.com''
        then ([''other=1'', ''v=spf1 include:_spf.example.com ~all'', ''v=spf1 -all''], None)
        else if d = ''_dmarc.example.com''
        then ([''x'', ''v=DMARC1; p=none'', ''v=DMARC1; p=reject''], None)
        else if d = ''plain.org'' then ([''hello'', ''V=SPF1''], None)
        else if d = ''_dmarc.plain.org'' then ([''v=dmarc1''], None)
        else ([], Some ''lookup: no such host'')),
      DialContext = (\<lambda>k a.
        if a = ''mx2.example.com:25'' then Inr exampleConn
        else Inl (''dial tcp '' @ a @ '': connection refused''))\<rparr>"

definition otherNet :: env where
  "otherNet =
     \<lparr>LookupMX = (\<lambda>d. ([], Some ''lookup: server misbehaving'')),
      LookupTXT = (\<lambda>d.
        if d = ''_dmarc.example.com''
        then ([''x'', ''v=DMARC1; p=none'', ''v=DMARC1; p=reject''], None)
        else ([], Some ''lookup: server misbehaving'')),
      DialContext = (\<lambda>k a. Inl ''dial tcp: i/o timeout'')\<rparr>"

definition shiftedNet :: env where
  "shiftedNet =
     exampleNet\<lparr>DialContext := (\<lambda>k a.
        if a = ''nowhere.net:25'' then Inl (''dial tcp '' @ a @ '': connection refused'')
        else Inr exampleConn)\<rparr>"

section \<open>Properties of \<open>checkDomain\<close>\<close>

subsection \<open>The library functions and the scanning loops\<close>

lemma HasPrefix_prefix: "HasPrefix s p = prefix p s"
  unfolding HasPrefix_def prefix_def
  by (metis append_eq_conv_conj append_take_drop_id length_append le_add1)

lemma TrimSuffix_dot: "TrimSuffix h ''.'' = stripDot h"
  unfolding TrimSuffix_def HasSuffix_def stripDot_def
  by (cases h rule: rev_cases) auto

lemma lastLine_continuation: "lastLine l = (\<not> continuation l)"
  unfolding lastLine_def
  by (cases l rule: continuation.cases) auto

lemma mxLoop_map:
  "mxLoop mxs res = res\<lparr>MXHosts := MXHosts res @ map (\<lambda>mx. TrimSuffix (Host mx) ''.'') mxs\<rparr>"
  by (induction mxs arbitrary: res) auto

lemma spfLoop_find:
  "spfLoop rs res =
     (case find (\<lambda>r. HasPrefix r ''v=spf1'') rs of
        None \<Rightarrow> res
      | Some r \<Rightarrow> res\<lparr>HasSPF := True, SPF := r\<rparr>)"
  by (induction rs) auto

lemma dmarcLoop_find:
  "dmarcLoop rs res =
     (case find (\<lambda>r. HasPrefix r ''v=DMARC1'') rs of
        None \<Rightarrow> res
      | Some r \<Rightarrow> res\<lparr>HasDMARC := True, DMARC := r\<rparr>)"
  by (induction rs) auto

lemma find_first_match:
  "\<forall>x\<in>set pre. \<not> P x \<Longrightarrow> P r \<Longrightarrow> find P (pre @ r # post) = Some r"
  by (induction pre) auto

lemma find_no_match: "\<forall>x\<in>set recs. \<not> P x \<Longrightarrow> find P recs = None"
  by (simp add: find_None_iff)

subsection \<open>The outcome of the three lookups, field by field\<close>

lemmas dnsStage_unfold =
  dnsStage_def newResult_def Let_def case_prod_beta mxLoop_map spfLoop_find dmarcLoop_find

lemma dnsStage_Domain: "Domain' (dnsStage e d) = d"
  by (simp add: dnsStage_unfold split: option.splits)

lemma dnsStage_HasMX:
  "HasMX (dnsStage e d) = (snd (LookupMX e d) = None \<and> fst (LookupMX e d) \<noteq> [])"
  by (simp add: dnsStage_unfold split: option.splits)

lemma dnsStage_MXHosts:
  "MXHosts (dnsStage e d) =
     (if snd (LookupMX e d) = None
      then map (\<lambda>mx. TrimSuffix (Host mx) ''.'') (fst (LookupMX e d)) else [])"
  by (simp add: dnsStage_unfold split: option.splits)

lemma dnsStage_HasSPF:
  "HasSPF (dnsStage e d) =
     (snd (LookupTXT e d) = None \<and>
      find (\<lambda>r. HasPrefix r ''v=spf1'') (fst (LookupTXT e d)) \<noteq> None)"
  by (simp add: dnsStage_unfold split: option.splits)

lemma dnsStage_SPF:
  "SPF (dnsStage e d) =
     (if snd (LookupTXT e d) = None
      then (case find (\<lambda>r. HasPrefix r ''v=spf1'') (fst (LookupTXT e d)) of
              None \<Rightarrow> [] | Some r \<Rightarrow> r)
      else [])"
  by (simp add: dnsStage_unfold split: option.splits)

lemma dnsStage_HasDMARC:
  "HasDMARC (dnsStage e d) =
     (snd (LookupTXT e (''_dmarc.'' @ d)) = None \<and>
      find (\<lambda>r. HasPrefix r ''v=DMARC1'') (fst (LookupTXT e (''_dmarc.'' @ d))) \<noteq> None)"
  by (simp add: dnsStage_unfold split: option.splits)

lemma dnsStage_DMARC:
  "DMARC (dnsStage e d) =
     (if snd (LookupTXT e (''_dmarc.'' @ d)) = None
      then (case find (\<lambda>r. HasPrefix r ''v=DMARC1'') (fst (LookupTXT e (''_dmarc.'' @ d))) of
              None \<Rightarrow> [] | Some r \<Rightarrow> r)
      else [])"
  by (simp add: dnsStage_unfold split: option.splits)

lemma dnsStage_rest:
  "SMTPReach (dnsStage e d) = False" "LatencyMs (dnsStage e d) = 0" "Error (dnsStage e d) = []"
  by (simp_all add: dnsStage_unfold split: option.splits)

lemma dnsStage_cong:
  "LookupMX e' d = LookupMX e d \<Longrightarrow> LookupTXT e' d = LookupTXT e d \<Longrightarrow>
   LookupTXT e' (''_dmarc.'' @ d) = LookupTXT e (''_dmarc.'' @ d) \<Longrightarrow>
   dnsStage e' d = dnsStage e d"
  by (simp add: dnsStage_def)

subsection \<open>The probe loop\<close>

lemma probeLoop_fields:
  "probeLoop e k hs (res, le, tr) = (res', le', tr') \<Longrightarrow>
     Domain' res' = Domain' res \<and> HasMX res' = HasMX res \<and> MXHosts res' = MXHosts res \<and>
     HasSPF res' = HasSPF res \<and> SPF res' = SPF res \<and> HasDMARC res' = HasDMARC res \<and>
     DMARC res' = DMARC res \<and> Error res' = Error res"
proof (induction hs arbitrary: k le tr)
  case Nil
  then show ?case by simp
next
  case (Cons h hs)
  show ?case
  proof (cases "DialContext e k (JoinHostPort h ''25'')")
    case (Inl err)
    with Cons.prems have "probeLoop e (Suc k) hs (res, Some err, tr @ [EvDial (JoinHostPort h ''25'')]) = (res', le', tr')"
      by simp
    then show ?thesis by (rule Cons.IH)
  next
    case (Inr c)
    with Cons.prems show ?thesis by auto
  qed
qed

lemma probeLoop_trace:
  "probeLoop e k hs (res, le, tr) = (res', le', tr') \<Longrightarrow> \<exists>evs. tr' = tr @ evs"
proof (induction hs arbitrary: k le tr)
  case Nil
  then show ?case by simp
next
  case (Cons h hs)
  show ?case
  proof (cases "DialContext e k (JoinHostPort h ''25'')")
    case (Inl err)
    with Cons.prems have "probeLoop e (Suc k) hs (res, Some err, tr @ [EvDial (JoinHostPort h ''25'')]) = (res', le', tr')"
      by simp
    from Cons.IH [OF this] show ?thesis by auto
  next
    case (Inr c)
    with Cons.prems show ?thesis by auto
  qed
qed

lemma probeLoop_all_fail:
  "\<forall>i<length hs. isl (DialContext e (k + i) (JoinHostPort (hs ! i) ''25'')) \<Longrightarrow>
   probeLoop e k hs (res, le, tr) =
     (res,
      (if hs = [] then le
       else Some (projl (DialContext e (k + (length hs - 1)) (JoinHostPort (hs ! (length hs - 1)) ''25'')))),
      tr @ map (\<lambda>h. EvDial (JoinHostPort h ''25'')) hs)"
proof (induction hs arbitrary: k le tr)
  case Nil
  then show ?case by simp
next
  case (Cons h hs)
  from Cons.prems have h0: "isl (DialContext e k (JoinHostPort h ''25''))"
    by fastforce
  then obtain err where err: "DialContext e k (JoinHostPort h ''25'') = Inl err"
    by (cases "DialContext e k (JoinHostPort h ''25'')") auto
  from Cons.prems have tl: "\<forall>i<length hs. isl (DialContext e (Suc k + i) (JoinHostPort (hs ! i) ''25''))"
    by fastforce
  show ?case
  proof (cases "hs = []")
    case True
    with err show ?thesis by simp
  next
    case False
    then have "length hs - 1 + 1 = length hs" by (cases hs) auto
    with Cons.IH [OF tl, of "Some err" "tr @ [EvDial (JoinHostPort h ''25'')]"] err False
    show ?thesis by (cases hs) auto
  qed
qed

lemma probeLoop_first_ok:
  "i < length hs \<Longrightarrow> DialContext e (k + i) (JoinHostPort (hs ! i) ''25'') = Inr c \<Longrightarrow>
   \<forall>j<i. isl (DialContext e (k + j) (JoinHostPort (hs ! j) ''25'')) \<Longrightarrow>
   probeLoop e k hs (res, le, tr) =
     (res\<lparr>SMTPReach := True, LatencyMs := Milliseconds (since c)\<rparr>, None,
      tr @ map (\<lambda>h. EvDial (JoinHostPort h ''25'')) (take (Suc i) hs) @ handshake c)"
proof (induction hs arbitrary: i k le tr)
  case Nil
  then show ?case by simp
next
  case (Cons h hs)
  show ?case
  proof (cases i)
    case 0
    with Cons.prems show ?thesis by simp
  next
    case (Suc i')
    from Cons.prems Suc have "isl (DialContext e k (JoinHostPort h ''25''))"
      by fastforce
    then obtain err where err: "DialContext e k (JoinHostPort h ''25'') = Inl err"
      by (cases "DialContext e k (JoinHostPort h ''25'')") auto
    have a: "i' < length hs" using Cons.prems Suc by simp
    have b: "DialContext e (Suc k + i') (JoinHostPort (hs ! i') ''25'') = Inr c"
      using Cons.prems Suc by simp
    have c: "\<forall>j<i'. isl (DialContext e (Suc k + j) (JoinHostPort (hs ! j) ''25''))"
    proof (intro allI impI)
      fix j assume "j < i'"
      then have "Suc j < i" using Suc by simp
      with Cons.prems(3) have "isl (DialContext e (k + Suc j) (JoinHostPort ((h # hs) ! Suc j) ''25''))"
        by blast
      then show "isl (DialContext e (Suc k + j) (JoinHostPort (hs ! j) ''25''))" by simp
    qed
    from Cons.IH [OF a b c, of "Some err" "tr @ [EvDial (JoinHostPort h ''25'')]"] err Suc
    show ?thesis by simp
  qed
qed

lemma first_success:
  fixes n :: nat
  assumes "\<not> (\<forall>i<n. isl (f i))"
  obtains i where "i < n" "\<not> isl (f i)" "\<forall>j<i. isl (f j)"
proof -
  from assms obtain m where m: "m < n \<and> \<not> isl (f m)" by blast
  define i where "i = (LEAST m. m < n \<and> \<not> isl (f m))"
  have "i < n \<and> \<not> isl (f i)"
    unfolding i_def using m by (rule LeastI [where P = "\<lambda>m. m < n \<and> \<not> isl (f m)"])
  moreover have "\<forall>j<i. isl (f j)"
  proof (intro allI impI)
    fix j assume "j < i"
    then have "\<not> (j < n \<and> \<not> isl (f j))"
      unfolding i_def by (rule not_less_Least [where P = "\<lambda>m. m < n \<and> \<not> isl (f m)"])
    moreover have "j < n" using \<open>j < i\<close> \<open>i < n \<and> \<not> isl (f i)\<close> by simp
    ultimately show "isl (f j)" by simp
  qed
  ultimately show ?thesis using that by blast
qed

lemma targets_nonempty: "targets e d \<noteq> []"
  by (simp add: targets_def probeTargets_def Let_def)

lemma probeTargets_dnsStage:
  "targets e d =
     (if snd (LookupMX e d) = None \<and> fst (LookupMX e d) \<noteq> []
      then map (\<lambda>mx. TrimSuffix (Host mx) ''.'') (fst (LookupMX e d)) else [d])"
  by (simp add: targets_def probeTargets_def Let_def dnsStage_MXHosts)

lemma exampleTargets:
  "targets exampleNet ''example.com'' =
     [''mx1.example.com'', ''mx2.example.com'', ''mx3.example.com.'']"
  by (simp add: probeTargets_dnsStage exampleNet_def TrimSuffix_def HasSuffix_def)

lemma nowhereTargets:
  "targets exampleNet ''nowhere.net'' = [''nowhere.net'']"
  by (simp add: probeTargets_dnsStage exampleNet_def)

lemma checkDomainIO_targets:
  "checkDomainIO e d smtp =
     (if smtp then
        (case probeLoop e 0 (targets e d)
                (dnsStage e d, None, [EvLookupMX d, EvLookupTXT d, EvLookupTXT (''_dmarc.'' @ d)]) of
           (res, lastErr, tr) \<Rightarrow>
             (case lastErr of Some err \<Rightarrow> (res\<lparr>Error := err\<rparr>, tr) | None \<Rightarrow> (res, tr)))
      else (dnsStage e d, [EvLookupMX d, EvLookupTXT d, EvLookupTXT (''_dmarc.'' @ d)]))"
  by (simp add: checkDomainIO_def targets_def Let_def)

text \<open>The three ways the function ends.\<close>

lemma checkDomainIO_no_smtp:
  "checkDomainIO e d False =
     (dnsStage e d, [EvLookupMX d, EvLookupTXT d, EvLookupTXT (''_dmarc.'' @ d)])"
  by (simp add: checkDomainIO_targets)

lemma checkDomainIO_all_fail:
  assumes "\<forall>i<length (targets e d). isl (attempt e (targets e d) i)"
  shows "checkDomainIO e d True =
     ((dnsStage e d)\<lparr>Error := projl (attempt e (targets e d)
                                  (length (targets e d) - 1))\<rparr>,
      [EvLookupMX d, EvLookupTXT d, EvLookupTXT (''_dmarc.'' @ d)]
      @ map (\<lambda>h. EvDial (JoinHostPort h ''25'')) (targets e d))"
proof -
  from assms have "\<forall>i<length (targets e d).
      isl (DialContext e (0 + i) (JoinHostPort (targets e d ! i) ''25''))"
    by (simp add: attempt_def)
  from probeLoop_all_fail [OF this] show ?thesis
    by (simp add: checkDomainIO_targets targets_nonempty attempt_def)
qed

lemma checkDomainIO_first_ok:
  assumes "i < length (targets e d)"
    and "attempt e (targets e d) i = Inr c"
    and "\<forall>j<i. isl (attempt e (targets e d) j)"
  shows "checkDomainIO e d True =
     ((dnsStage e d)\<lparr>SMTPReach := True, LatencyMs := Milliseconds (since c)\<rparr>,
      [EvLookupMX d, EvLookupTXT d, EvLookupTXT (''_dmarc.'' @ d)]
      @ map (\<lambda>h. EvDial (JoinHostPort h ''25'')) (take (Suc i) (targets e d))
      @ handshake c)"
proof -
  have b: "DialContext e (0 + i) (JoinHostPort (targets e d ! i) ''25'') = Inr c"
    using assms(2) by (simp add: attempt_def)
  have c: "\<forall>j<i. isl (DialContext e (0 + j) (JoinHostPort (targets e d ! j) ''25''))"
    using assms(3) by (simp add: attempt_def)
  from probeLoop_first_ok [OF assms(1) b c] show ?thesis
    by (simp add: checkDomainIO_targets)
qed

lemma checkDomain_no_smtp: "checkDomain e d False = dnsStage e d"
  by (simp add: checkDomain_def checkDomainIO_no_smtp)

lemma checkDomain_dns_fields:
  "Domain' (checkDomain e d s) = Domain' (dnsStage e d)"
  "HasMX (checkDomain e d s) = HasMX (dnsStage e d)"
  "MXHosts (checkDomain e d s) = MXHosts (dnsStage e d)"
  "HasSPF (checkDomain e d s) = HasSPF (dnsStage e d)"
  "SPF (checkDomain e d s) = SPF (dnsStage e d)"
  "HasDMARC (checkDomain e d s) = HasDMARC (dnsStage e d)"
  "DMARC (checkDomain e d s) = DMARC (dnsStage e d)"
proof -
  obtain res' le' tr' where p: "probeLoop e 0 (targets e d)
       (dnsStage e d, None, [EvLookupMX d, EvLookupTXT d, EvLookupTXT (''_dmarc.'' @ d)]) = (res', le', tr')"
    by (metis prod_cases3)
  note f = probeLoop_fields [OF p]
  have c: "checkDomain e d s =
      (if s then (case le' of Some err \<Rightarrow> res'\<lparr>Error := err\<rparr> | None \<Rightarrow> res')
       else dnsStage e d)"
    using p by (simp add: checkDomain_def checkDomainIO_targets split: option.splits)
  show "Domain' (checkDomain e d s) = Domain' (dnsStage e d)"
    "HasMX (checkDomain e d s) = HasMX (dnsStage e d)"
    "MXHosts (checkDomain e d s) = MXHosts (dnsStage e d)"
    "HasSPF (checkDomain e d s) = HasSPF (dnsStage e d)"
    "SPF (checkDomain e d s) = SPF (dnsStage e d)"
    "HasDMARC (checkDomain e d s) = HasDMARC (dnsStage e d)"
    "DMARC (checkDomain e d s) = DMARC (dnsStage e d)"
    using f by (simp_all add: c split: option.splits)
qed

subsection \<open>The outcome of a call\<close>

text \<open>
  Claim C2. Whatever the network answers, a call with \<open>smtpCheck = false\<close> returns an
  outcome with \<open>SMTPReach = false\<close> and an empty \<open>Error\<close>; the call makes the three
  lookups and opens no connection.
\<close>

theorem smtp_disabled:
  "SMTPReach (checkDomain e d False) = False \<and> Error (checkDomain e d False) = [] \<and>
   snd (checkDomainIO e d False) = [EvLookupMX d, EvLookupTXT d, EvLookupTXT (''_dmarc.'' @ d)]"
  by (simp add: checkDomain_no_smtp dnsStage_rest checkDomainIO_no_smtp)

theorem smtp_disabled_witness:
  "SMTPReach (checkDomain exampleNet ''example.com'' False) = False \<and>
   Error (checkDomain exampleNet ''example.com'' False) = [] \<and>
   snd (checkDomainIO exampleNet ''example.com'' False) =
     [EvLookupMX ''example.com'', EvLookupTXT ''example.com'', EvLookupTXT ''_dmarc.example.com'']"
  using smtp_disabled [of exampleNet "''example.com''"] by simp

text \<open>
  Claim C3. The TXT records of the domain are scanned in the order of the resolver. The
  first record that starts with \<open>v=spf1\<close> sets \<open>HasSPF\<close> and becomes \<open>SPF\<close>,
  whatever records follow it; when no record starts with the prefix, or when the lookup
  fails, \<open>HasSPF\<close> is false and \<open>SPF\<close> is empty.
\<close>

theorem spf_first_match:
  "(\<forall>pre r post. LookupTXT e d = (pre @ r # post, None) \<and>
        (\<forall>x\<in>set pre. \<not> prefix ''v=spf1'' x) \<and> prefix ''v=spf1'' r \<longrightarrow>
      HasSPF (checkDomain e d smtp) \<and> SPF (checkDomain e d smtp) = r) \<and>
   (\<forall>recs. LookupTXT e d = (recs, None) \<and> (\<forall>x\<in>set recs. \<not> prefix ''v=spf1'' x) \<longrightarrow>
      \<not> HasSPF (checkDomain e d smtp) \<and> SPF (checkDomain e d smtp) = []) \<and>
   (\<forall>recs err. LookupTXT e d = (recs, Some err) \<longrightarrow>
      \<not> HasSPF (checkDomain e d smtp) \<and> SPF (checkDomain e d smtp) = [])"
proof (intro conjI allI impI)
  fix pre r post
  assume a: "LookupTXT e d = (pre @ r # post, None) \<and>
        (\<forall>x\<in>set pre. \<not> prefix ''v=spf1'' x) \<and> prefix ''v=spf1'' r"
  then have "find (\<lambda>r. HasPrefix r ''v=spf1'') (pre @ r # post) = Some r"
    by (intro find_first_match) (simp_all add: HasPrefix_prefix)
  with a show "HasSPF (checkDomain e d smtp)" "SPF (checkDomain e d smtp) = r"
    by (simp_all add: checkDomain_dns_fields dnsStage_HasSPF dnsStage_SPF)
next
  fix recs
  assume a: "LookupTXT e d = (recs, None) \<and> (\<forall>x\<in>set recs. \<not> prefix ''v=spf1'' x)"
  then have "find (\<lambda>r. HasPrefix r ''v=spf1'') recs = None"
    by (intro find_no_match) (simp add: HasPrefix_prefix)
  with a show "\<not> HasSPF (checkDomain e d smtp)" "SPF (checkDomain e d smtp) = []"
    by (simp_all add: checkDomain_dns_fields dnsStage_HasSPF dnsStage_SPF)
next
  fix recs err
  assume "LookupTXT e d = (recs, Some err)"
  then show "\<not> HasSPF (checkDomain e d smtp)" "SPF (checkDomain e d smtp) = []"
    by (simp_all add: checkDomain_dns_fields dnsStage_HasSPF dnsStage_SPF)
qed

theorem spf_first_match_witness:
  "(LookupTXT exampleNet ''example.com'' =
      ([''other=1''] @ ''v=spf1 include:_spf.example.com ~all'' # [''v=spf1 -all''], None) \<and>
    \<not> prefix ''v=spf1'' ''other=1'' \<and>
    prefix ''v=spf1'' ''v=spf1 include:_spf.example.com ~all'') \<and>
   HasSPF (checkDomain exampleNet ''example.com'' True) \<and>
   SPF (checkDomain exampleNet ''example.com'' True) = ''v=spf1 include:_spf.example.com ~all'' \<and>
   (LookupTXT exampleNet ''plain.org'' = ([''hello'', ''V=SPF1''], None) \<and>
    \<not> prefix ''v=spf1'' ''hello'' \<and> \<not> prefix ''v=spf1'' ''V=SPF1'') \<and>
   \<not> HasSPF (checkDomain exampleNet ''plain.org'' True) \<and>
   SPF (checkDomain exampleNet ''plain.org'' True) = [] \<and>
   LookupTXT exampleNet ''nowhere.net'' = ([], Some ''lookup: no such host'') \<and>
   \<not> HasSPF (checkDomain exampleNet ''nowhere.net'' False) \<and>
   SPF (checkDomain exampleNet ''nowhere.net'' False) = []"
proof -
  have h1: "LookupTXT exampleNet ''example.com'' =
      ([''other=1''] @ ''v=spf1 include:_spf.example.com ~all'' # [''v=spf1 -all''], None) \<and>
    (\<forall>x\<in>set [''other=1'']. \<not> prefix ''v=spf1'' x) \<and>
    prefix ''v=spf1'' ''v=spf1 include:_spf.example.com ~all''"
    by (simp add: exampleNet_def)
  have h2: "LookupTXT exampleNet ''plain.org'' = ([''hello'', ''V=SPF1''], None) \<and>
    (\<forall>x\<in>set [''hello'', ''V=SPF1'']. \<not> prefix ''v=spf1'' x)"
    by (simp add: exampleNet_def)
  have h3: "LookupTXT exampleNet ''nowhere.net'' = ([], Some ''lookup: no such host'')"
    by (simp add: exampleNet_def)
  from h1 spf_first_match [of exampleNet "''example.com''" True]
  have c1: "HasSPF (checkDomain exampleNet ''example.com'' True) \<and>
      SPF (checkDomain exampleNet ''example.com'' True) = ''v=spf1 include:_spf.example.com ~all''"
    by blast
  from h2 spf_first_match [of exampleNet "''plain.org''" True]
  have c2: "\<not> HasSPF (checkDomain exampleNet ''plain.org'' True) \<and>
      SPF (checkDomain exampleNet ''plain.org'' True) = []"
    by blast
  from h3 spf_first_match [of exampleNet "''nowhere.net''" False]
  have c3: "\<not> HasSPF (checkDomain exampleNet ''nowhere.net'' False) \<and>
      SPF (checkDomain exampleNet ''nowhere.net'' False) = []"
    by blast
  from h1 h2 h3 c1 c2 c3 show ?thesis by simp
qed

text \<open>
  Claim C4. The same scan, with the prefix \<open>v=DMARC1\<close>, runs over the TXT records of
  \<open>_dmarc.\<close> followed by the domain: the third lookup of every call. The two DMARC
  fields depend on the answer to that lookup alone, so not on what the SPF step found.
\<close>

theorem dmarc_first_match:
  "(\<forall>pre r post. LookupTXT e (''_dmarc.'' @ d) = (pre @ r # post, None) \<and>
        (\<forall>x\<in>set pre. \<not> prefix ''v=DMARC1'' x) \<and> prefix ''v=DMARC1'' r \<longrightarrow>
      HasDMARC (checkDomain e d smtp) \<and> DMARC (checkDomain e d smtp) = r) \<and>
   (\<forall>recs. LookupTXT e (''_dmarc.'' @ d) = (recs, None) \<and>
        (\<forall>x\<in>set recs. \<not> prefix ''v=DMARC1'' x) \<longrightarrow>
      \<not> HasDMARC (checkDomain e d smtp) \<and> DMARC (checkDomain e d smtp) = []) \<and>
   (\<forall>recs err. LookupTXT e (''_dmarc.'' @ d) = (recs, Some err) \<longrightarrow>
      \<not> HasDMARC (checkDomain e d smtp) \<and> DMARC (checkDomain e d smtp) = []) \<and>
   (\<forall>e' smtp'. LookupTXT e' (''_dmarc.'' @ d) = LookupTXT e (''_dmarc.'' @ d) \<longrightarrow>
      HasDMARC (checkDomain e' d smtp') = HasDMARC (checkDomain e d smtp) \<and>
      DMARC (checkDomain e' d smtp') = DMARC (checkDomain e d smtp)) \<and>
   take 3 (snd (checkDomainIO e d smtp)) =
     [EvLookupMX d, EvLookupTXT d, EvLookupTXT (''_dmarc.'' @ d)]"
proof (intro conjI allI impI)
  fix pre r post
  assume a: "LookupTXT e (''_dmarc.'' @ d) = (pre @ r # post, None) \<and>
        (\<forall>x\<in>set pre. \<not> prefix ''v=DMARC1'' x) \<and> prefix ''v=DMARC1'' r"
  then have "find (\<lambda>r. HasPrefix r ''v=DMARC1'') (pre @ r # post) = Some r"
    by (intro find_first_match) (simp_all add: HasPrefix_prefix)
  with a show "HasDMARC (checkDomain e d smtp)" "DMARC (checkDomain e d smtp) = r"
    by (simp_all add: checkDomain_dns_fields dnsStage_HasDMARC dnsStage_DMARC)
next
  fix recs
  assume a: "LookupTXT e (''_dmarc.'' @ d) = (recs, None) \<and>
     (\<forall>x\<in>set recs. \<not> prefix ''v=DMARC1'' x)"
  then have "find (\<lambda>r. HasPrefix r ''v=DMARC1'') recs = None"
    by (intro find_no_match) (simp add: HasPrefix_prefix)
  with a show "\<not> HasDMARC (checkDomain e d smtp)" "DMARC (checkDomain e d smtp) = []"
    by (simp_all add: checkDomain_dns_fields dnsStage_HasDMARC dnsStage_DMARC)
next
  fix recs err
  assume "LookupTXT e (''_dmarc.'' @ d) = (recs, Some err)"
  then show "\<not> HasDMARC (checkDomain e d smtp)" "DMARC (checkDomain e d smtp) = []"
    by (simp_all add: checkDomain_dns_fields dnsStage_HasDMARC dnsStage_DMARC)
next
  fix e' :: env and smtp' :: bool
  assume "LookupTXT e' (''_dmarc.'' @ d) = LookupTXT e (''_dmarc.'' @ d)"
  then show "HasDMARC (checkDomain e' d smtp') = HasDMARC (checkDomain e d smtp)"
    "DMARC (checkDomain e' d smtp') = DMARC (checkDomain e d smtp)"
    by (simp_all add: checkDomain_dns_fields dnsStage_HasDMARC dnsStage_DMARC)
next
  obtain res' le' tr' where p: "probeLoop e 0 (targets e d)
       (dnsStage e d, None, [EvLookupMX d, EvLookupTXT d, EvLookupTXT (''_dmarc.'' @ d)]) = (res', le', tr')"
    by (metis prod_cases3)
  from probeLoop_trace [OF p] obtain evs where "tr' = [EvLookupMX d, EvLookupTXT d, EvLookupTXT (''_dmarc.'' @ d)] @ evs"
    by blast
  with p show "take 3 (snd (checkDomainIO e d smtp)) =
     [EvLookupMX d, EvLookupTXT d, EvLookupTXT (''_dmarc.'' @ d)]"
    by (simp add: checkDomainIO_targets split: option.splits)
qed

theorem dmarc_first_match_witness:
  "(LookupTXT exampleNet (''_dmarc.'' @ ''example.com'') =
      ([''x''] @ ''v=DMARC1; p=none'' # [''v=DMARC1; p=reject''], None) \<and>
    \<not> prefix ''v=DMARC1'' ''x'' \<and> prefix ''v=DMARC1'' ''v=DMARC1; p=none'') \<and>
   HasDMARC (checkDomain exampleNet ''example.com'' True) \<and>
   DMARC (checkDomain exampleNet ''example.com'' True) = ''v=DMARC1; p=none'' \<and>
   (LookupTXT exampleNet (''_dmarc.'' @ ''plain.org'') = ([''v=dmarc1''], None) \<and>
    \<not> prefix ''v=DMARC1'' ''v=dmarc1'') \<and>
   \<not> HasDMARC (checkDomain exampleNet ''plain.org'' True) \<and>
   DMARC (checkDomain exampleNet ''plain.org'' True) = [] \<and>
   LookupTXT exampleNet (''_dmarc.'' @ ''nowhere.net'') = ([], Some ''lookup: no such host'') \<and>
   \<not> HasDMARC (checkDomain exampleNet ''nowhere.net'' False) \<and>
   DMARC (checkDomain exampleNet ''nowhere.net'' False) = [] \<and>
   LookupTXT otherNet (''_dmarc.'' @ ''example.com'') = LookupTXT exampleNet (''_dmarc.'' @ ''example.com'') \<and>
   LookupTXT otherNet ''example.com'' \<noteq> LookupTXT exampleNet ''example.com'' \<and>
   HasDMARC (checkDomain otherNet ''example.com'' False) = HasDMARC (checkDomain exampleNet ''example.com'' True) \<and>
   DMARC (checkDomain otherNet ''example.com'' False) = DMARC (checkDomain exampleNet ''example.com'' True)"
proof -
  have h1: "LookupTXT exampleNet (''_dmarc.'' @ ''example.com'') =
      ([''x''] @ ''v=DMARC1; p=none'' # [''v=DMARC1; p=reject''], None) \<and>
    (\<forall>x\<in>set [''x'']. \<not> prefix ''v=DMARC1'' x) \<and> prefix ''v=DMARC1'' ''v=DMARC1; p=none''"
    by (simp add: exampleNet_def)
  have h2: "LookupTXT exampleNet (''_dmarc.'' @ ''plain.org'') = ([''v=dmarc1''], None) \<and>
    (\<forall>x\<in>set [''v=dmarc1'']. \<not> prefix ''v=DMARC1'' x)"
    by (simp add: exampleNet_def)
  have h3: "LookupTXT exampleNet (''_dmarc.'' @ ''nowhere.net'') = ([], Some ''lookup: no such host'')"
    by (simp add: exampleNet_def)
  have h4: "LookupTXT otherNet (''_dmarc.'' @ ''example.com'') =
      LookupTXT exampleNet (''_dmarc.'' @ ''example.com'')"
    by (simp add: exampleNet_def otherNet_def)
  have h5: "LookupTXT otherNet ''example.com'' \<noteq> LookupTXT exampleNet ''example.com''"
    by (simp add: exampleNet_def otherNet_def)
  from h1 dmarc_first_match [of exampleNet "''example.com''" True]
  have c1: "HasDMARC (checkDomain exampleNet ''example.com'' True) \<and>
      DMARC (checkDomain exampleNet ''example.com'' True) = ''v=DMARC1; p=none''"
    by blast
  from h2 dmarc_first_match [of exampleNet "''plain.org''" True]
  have c2: "\<not> HasDMARC (checkDomain exampleNet ''plain.org'' True) \<and>
      DMARC (checkDomain exampleNet ''plain.org'' True) = []"
    by blast
  from h3 dmarc_first_match [of exampleNet "''nowhere.net''" False]
  have c3: "\<not> HasDMARC (checkDomain exampleNet ''nowhere.net'' False) \<and>
      DMARC (checkDomain exampleNet ''nowhere.net'' False) = []"
    by blast
  from h4 dmarc_first_match [of exampleNet "''example.com''" True]
  have c4: "HasDMARC (checkDomain otherNet ''example.com'' False) =
        HasDMARC (checkDomain exampleNet ''example.com'' True) \<and>
      DMARC (checkDomain otherNet ''example.com'' False) =
        DMARC (checkDomain exampleNet ''example.com'' True)"
    by blast
  from h1 h2 h3 h4 h5 c1 c2 c3 c4 show ?thesis by simp
qed

lemma checkDomain_all_fail:
  assumes "\<forall>i<length (targets e d). isl (attempt e (targets e d) i)"
  shows "checkDomain e d True =
     (dnsStage e d)\<lparr>Error := projl (attempt e (targets e d)
                                  (length (targets e d) - 1))\<rparr>"
  by (simp add: checkDomain_def checkDomainIO_all_fail [OF assms])

lemma checkDomain_first_ok:
  assumes "i < length (targets e d)"
    and "attempt e (targets e d) i = Inr c"
    and "\<forall>j<i. isl (attempt e (targets e d) j)"
  shows "checkDomain e d True =
     (dnsStage e d)\<lparr>SMTPReach := True, LatencyMs := Milliseconds (since c)\<rparr>"
  by (simp add: checkDomain_def checkDomainIO_first_ok [OF assms])

lemma checkDomain_some_ok:
  assumes "\<not> (\<forall>i<length (targets e d). isl (attempt e (targets e d) i))"
  obtains c :: conn where "checkDomain e d True =
     (dnsStage e d)\<lparr>SMTPReach := True, LatencyMs := Milliseconds (since c)\<rparr>"
proof -
  from assms obtain i where i: "i < length (targets e d)"
      "\<not> isl (attempt e (targets e d) i)"
      "\<forall>j<i. isl (attempt e (targets e d) j)"
    by (rule first_success)
  from i(2) obtain c where "attempt e (targets e d) i = Inr c"
    by (cases "attempt e (targets e d) i") auto
  from checkDomain_first_ok [OF i(1) this i(3)] show ?thesis by (rule that)
qed

text \<open>
  Claim C10. An outcome with \<open>SMTPReach = false\<close> has \<open>LatencyMs = 0\<close>, for every
  domain and either value of \<open>smtpCheck\<close>.
\<close>

theorem latency_zero_unless_reachable:
  "\<not> SMTPReach (checkDomain e d smtp) \<longrightarrow> LatencyMs (checkDomain e d smtp) = 0"
proof (cases smtp)
  case False
  then show ?thesis by (simp add: checkDomain_no_smtp dnsStage_rest)
next
  case True
  then have s: "smtp = True" by simp
  show ?thesis
  proof (cases "\<forall>i<length (targets e d). isl (attempt e (targets e d) i)")
    case allfail: True
    show ?thesis by (simp add: s checkDomain_all_fail [OF allfail] dnsStage_rest)
  next
    case False
    then obtain c :: conn where "checkDomain e d True =
       (dnsStage e d)\<lparr>SMTPReach := True, LatencyMs := Milliseconds (since c)\<rparr>"
      by (rule checkDomain_some_ok)
    then show ?thesis by (simp add: s)
  qed
qed

theorem latency_zero_unless_reachable_witness:
  "\<not> SMTPReach (checkDomain exampleNet ''nowhere.net'' True) \<and>
   LatencyMs (checkDomain exampleNet ''nowhere.net'' True) = 0"
proof -
  have "\<forall>i<length (targets exampleNet ''nowhere.net'').
      isl (attempt exampleNet (targets exampleNet ''nowhere.net'') i)"
    unfolding nowhereTargets by (simp add: attempt_def exampleNet_def JoinHostPort_def)
  then have h: "\<not> SMTPReach (checkDomain exampleNet ''nowhere.net'' True)"
    by (simp add: checkDomain_all_fail dnsStage_rest)
  with latency_zero_unless_reachable [of exampleNet "''nowhere.net''" True] show ?thesis
    by simp
qed

text \<open>
  Claim C5. When the MX lookup fails or returns no record, \<open>HasMX\<close> is false and
  \<open>MXHosts\<close> is empty; otherwise \<open>HasMX\<close> is true and \<open>MXHosts\<close> lists the hosts
  in the order of the resolver, each without one trailing dot. \<open>MXHosts\<close> is empty
  exactly when \<open>HasMX\<close> is false. A failed MX lookup leaves no trace in \<open>Error\<close>:
  the field is empty without the SMTP check, and with it holds what the connection to
  the domain itself gave.
\<close>

theorem mx_hosts:
  "((snd (LookupMX e d) \<noteq> None \<or> fst (LookupMX e d) = []) \<longrightarrow>
      \<not> HasMX (checkDomain e d smtp) \<and> MXHosts (checkDomain e d smtp) = []) \<and>
   (snd (LookupMX e d) = None \<and> fst (LookupMX e d) \<noteq> [] \<longrightarrow>
      HasMX (checkDomain e d smtp) \<and>
      MXHosts (checkDomain e d smtp) = map (\<lambda>mx. stripDot (Host mx)) (fst (LookupMX e d))) \<and>
   ((MXHosts (checkDomain e d smtp) = []) = (\<not> HasMX (checkDomain e d smtp))) \<and>
   ((snd (LookupMX e d) \<noteq> None \<or> fst (LookupMX e d) = []) \<longrightarrow>
      Error (checkDomain e d smtp) =
        (if smtp then (case attempt e [d] 0 of Inl err \<Rightarrow> err | Inr c \<Rightarrow> []) else []))"
proof (intro conjI impI)
  assume "snd (LookupMX e d) \<noteq> None \<or> fst (LookupMX e d) = []"
  then show "\<not> HasMX (checkDomain e d smtp)" "MXHosts (checkDomain e d smtp) = []"
    by (auto simp add: checkDomain_dns_fields dnsStage_HasMX dnsStage_MXHosts)
next
  assume "snd (LookupMX e d) = None \<and> fst (LookupMX e d) \<noteq> []"
  then show "HasMX (checkDomain e d smtp)"
    "MXHosts (checkDomain e d smtp) = map (\<lambda>mx. stripDot (Host mx)) (fst (LookupMX e d))"
    by (simp_all add: checkDomain_dns_fields dnsStage_HasMX dnsStage_MXHosts TrimSuffix_dot)
next
  show "(MXHosts (checkDomain e d smtp) = []) = (\<not> HasMX (checkDomain e d smtp))"
    by (auto simp add: checkDomain_dns_fields dnsStage_HasMX dnsStage_MXHosts)
next
  assume a: "snd (LookupMX e d) \<noteq> None \<or> fst (LookupMX e d) = []"
  then have t: "targets e d = [d]"
    by (auto simp add: probeTargets_dnsStage)
  show "Error (checkDomain e d smtp) =
        (if smtp then (case attempt e [d] 0 of Inl err \<Rightarrow> err | Inr c \<Rightarrow> []) else [])"
  proof (cases smtp)
    case False
    then show ?thesis by (simp add: checkDomain_no_smtp dnsStage_rest)
  next
    case True
    show ?thesis
    proof (cases "attempt e [d] 0")
      case (Inl err)
      then have "\<forall>i<length (targets e d). isl (attempt e (targets e d) i)"
        by (simp add: t)
      from checkDomain_all_fail [OF this] Inl True show ?thesis by (simp add: t)
    next
      case (Inr c)
      have "checkDomain e d True = (dnsStage e d)\<lparr>SMTPReach := True, LatencyMs := Milliseconds (since c)\<rparr>"
        by (rule checkDomain_first_ok [where i = 0]) (simp_all add: t Inr)
      with Inr True show ?thesis by (simp add: dnsStage_rest)
    qed
  qed
qed

theorem mx_hosts_witness:
  "snd (LookupMX exampleNet ''nowhere.net'') \<noteq> None \<and>
   \<not> HasMX (checkDomain exampleNet ''nowhere.net'' True) \<and>
   MXHosts (checkDomain exampleNet ''nowhere.net'' True) = [] \<and>
   Error (checkDomain exampleNet ''nowhere.net'' True) = ''dial tcp nowhere.net:25: connection refused'' \<and>
   (snd (LookupMX exampleNet ''example.com'') = None \<and> fst (LookupMX exampleNet ''example.com'') \<noteq> []) \<and>
   HasMX (checkDomain exampleNet ''example.com'' False) \<and>
   MXHosts (checkDomain exampleNet ''example.com'' False) =
     [''mx1.example.com'', ''mx2.example.com'', ''mx3.example.com.'']"
proof -
  have h0: "snd (LookupMX exampleNet ''nowhere.net'') \<noteq> None"
    by (simp add: exampleNet_def)
  then have h1: "snd (LookupMX exampleNet ''nowhere.net'') \<noteq> None \<or> fst (LookupMX exampleNet ''nowhere.net'') = []"
    by blast
  have h2: "snd (LookupMX exampleNet ''example.com'') = None \<and> fst (LookupMX exampleNet ''example.com'') \<noteq> []"
    by (simp add: exampleNet_def)
  from h1 mx_hosts [of exampleNet "''nowhere.net''" True]
  have c1: "\<not> HasMX (checkDomain exampleNet ''nowhere.net'' True) \<and>
      MXHosts (checkDomain exampleNet ''nowhere.net'' True) = [] \<and>
      Error (checkDomain exampleNet ''nowhere.net'' True) =
        (case attempt exampleNet [''nowhere.net''] 0 of Inl err \<Rightarrow> err | Inr c \<Rightarrow> [])"
    by simp
  have c1': "(case attempt exampleNet [''nowhere.net''] 0 of Inl err \<Rightarrow> err | Inr c \<Rightarrow> []) =
      ''dial tcp nowhere.net:25: connection refused''"
    by (simp add: attempt_def exampleNet_def JoinHostPort_def)
  from h2 mx_hosts [of exampleNet "''example.com''" False]
  have c2: "HasMX (checkDomain exampleNet ''example.com'' False) \<and>
      MXHosts (checkDomain exampleNet ''example.com'' False) =
        map (\<lambda>mx. stripDot (Host mx)) (fst (LookupMX exampleNet ''example.com''))"
    by blast
  have c2': "map (\<lambda>mx. stripDot (Host mx)) (fst (LookupMX exampleNet ''example.com'')) =
      [''mx1.example.com'', ''mx2.example.com'', ''mx3.example.com.'']"
    by (simp add: exampleNet_def stripDot_def)
  from h0 h2 c1 c1' c2 c2' show ?thesis by simp
qed

lemma readLoop_lines:
  "fst (readLoop (map (\<lambda>l. (l, None)) ls @ rs)) =
     (if \<forall>l\<in>set ls. continuation l then ls @ fst (readLoop rs)
      else takeWhile continuation ls @ take 1 (dropWhile continuation ls))"
  by (induction ls) (auto simp add: lastLine_continuation split: prod.splits)

lemma takeWhile_all: "\<forall>l\<in>set ls. P l \<Longrightarrow> takeWhile P ls @ take (Suc 0) (dropWhile P ls) = ls"
  by (induction ls) auto

lemma readLoop_rest:
  "snd (readLoop rs) =
     drop (Suc (length (takeWhile (\<lambda>r. snd r = None \<and> continuation (fst r)) rs))) rs"
  by (induction rs rule: readLoop.induct) (auto simp add: lastLine_continuation split: prod.splits)

text \<open>
  Claim C8. After EHLO the reply is read line by line. Of the lines the server sends,
  the loop consumes the longest prefix of continuation lines (fourth character \<open>-\<close>)
  and the line that ends it, if there is one; a failed read ends the loop as well. Only
  the fourth character of a line is looked at, never its status code. What follows in
  the reader stays unread.
\<close>

theorem ehlo_reply_lines:
  "fst (readLoop (map (\<lambda>l. (l, None)) ls)) =
     takeWhile continuation ls @ take 1 (dropWhile continuation ls) \<and>
   fst (readLoop (map (\<lambda>l. (l, None)) ls @ (x, Some err) # rest)) =
     takeWhile continuation ls @ take 1 (dropWhile continuation ls) \<and>
   snd (readLoop rs) =
     drop (Suc (length (takeWhile (\<lambda>r. snd r = None \<and> continuation (fst r)) rs))) rs \<and>
   lastLine l = (\<not> continuation l) \<and>
   handshake \<lparr>rx = greet # map (\<lambda>l. (l, None)) ls, since = t\<rparr> =
     [EvRead greet, EvWrite (''EHLO example.com'' @ CRLF)]
     @ map (\<lambda>l. EvRead (l, None)) (takeWhile continuation ls @ take 1 (dropWhile continuation ls))
     @ [EvWrite (''QUIT'' @ CRLF), EvClose]"
proof -
  have a: "fst (readLoop (map (\<lambda>l. (l, None)) ls)) =
     takeWhile continuation ls @ take 1 (dropWhile continuation ls)"
    using readLoop_lines [of ls "[]"] by (simp add: takeWhile_all)
  have b: "fst (readLoop (map (\<lambda>l. (l, None)) ls @ (x, Some err) # rest)) =
     takeWhile continuation ls @ take 1 (dropWhile continuation ls)"
    using readLoop_lines [of ls "(x, Some err) # rest"] by (simp add: takeWhile_all)
  have c: "handshake \<lparr>rx = greet # map (\<lambda>l. (l, None)) ls, since = t\<rparr> =
     [EvRead greet, EvWrite (''EHLO example.com'' @ CRLF)]
     @ map (\<lambda>l. EvRead (l, None)) (takeWhile continuation ls @ take 1 (dropWhile continuation ls))
     @ [EvWrite (''QUIT'' @ CRLF), EvClose]"
    unfolding handshake_def ReadString_def using a by simp
  from a b c readLoop_rest lastLine_continuation show ?thesis by blast
qed

theorem ehlo_reply_lines_witness:
  "fst (readLoop (map (\<lambda>l. (l, None)) [''250-one'', ''250-two'', ''550 three'', ''250-four''])) =
     [''250-one'', ''250-two'', ''550 three''] \<and>
   fst (readLoop (map (\<lambda>l. (l, None)) [''250-one'', ''250-two'']
                  @ (''25'', Some ''i/o timeout'') # [(''250 ok'', None)])) =
     [''250-one'', ''250-two''] \<and>
   snd (readLoop [(''250-one'', None), (''ok'', None), (''250 more'', None)]) = [(''250 more'', None)]"
proof -
  have t1: "takeWhile continuation [''250-one'', ''250-two'', ''550 three'', ''250-four'']
       @ take 1 (dropWhile continuation [''250-one'', ''250-two'', ''550 three'', ''250-four''])
     = [''250-one'', ''250-two'', ''550 three'']"
    by simp
  have t2: "takeWhile continuation [''250-one'', ''250-two'']
       @ take 1 (dropWhile continuation [''250-one'', ''250-two'']) = [''250-one'', ''250-two'']"
    by simp
  have t3: "drop (Suc (length (takeWhile (\<lambda>r. snd r = None \<and> continuation (fst r))
        [(''250-one'', None), (''ok'', None), (''250 more'', None)])))
        [(''250-one'', None), (''ok'', None), (''250 more'', None)] = [(''250 more'', None)]"
    by simp
  from ehlo_reply_lines [of "[''250-one'', ''250-two'', ''550 three'', ''250-four'']"]
  have c1: "fst (readLoop (map (\<lambda>l. (l, None)) [''250-one'', ''250-two'', ''550 three'', ''250-four''])) =
     [''250-one'', ''250-two'', ''550 three'']"
    unfolding t1 by blast
  from ehlo_reply_lines [of "[''250-one'', ''250-two'']" "''25''" "''i/o timeout''" "[(''250 ok'', None)]"]
  have c2: "fst (readLoop (map (\<lambda>l. (l, None)) [''250-one'', ''250-two'']
                  @ (''25'', Some ''i/o timeout'') # [(''250 ok'', None)])) =
     [''250-one'', ''250-two'']"
    unfolding t2 by blast
  from ehlo_reply_lines [where rs = "[(''250-one'', None), (''ok'', None), (''250 more'', None)]"]
  have c3: "snd (readLoop [(''250-one'', None), (''ok'', None), (''250 more'', None)]) = [(''250 more'', None)]"
    unfolding t3 by blast
  from c1 c2 c3 show ?thesis by blast
qed

lemma handshake_no_dial: "EvDial a \<notin> set (handshake c)"
  by (auto simp add: handshake_def split: prod.splits)

text \<open>
  Claim C6. With \<open>smtpCheck = true\<close> the targets are \<open>MXHosts\<close>, or the domain alone
  when \<open>MXHosts\<close> is empty. They are dialled in that order on port 25. When the target
  at position \<open>i\<close> is the first whose connection succeeds, \<open>SMTPReach\<close> is true,
  \<open>LatencyMs\<close> is the time measured on that connection, \<open>Error\<close> is empty although
  earlier attempts failed, and the addresses dialled are those of the first \<open>i + 1\<close>
  targets and no other.
\<close>

theorem probe_first_reachable:
  "targets e d =
     (if MXHosts (checkDomain e d True) = [] then [d] else MXHosts (checkDomain e d True)) \<and>
   (\<forall>i c. i < length (targets e d) \<and>
        attempt e (targets e d) i = Inr c \<and>
        (\<forall>j<i. isl (attempt e (targets e d) j)) \<longrightarrow>
      SMTPReach (checkDomain e d True) \<and>
      LatencyMs (checkDomain e d True) = Milliseconds (since c) \<and>
      Error (checkDomain e d True) = [] \<and>
      snd (checkDomainIO e d True) =
        [EvLookupMX d, EvLookupTXT d, EvLookupTXT (''_dmarc.'' @ d)]
        @ map (\<lambda>h. EvDial (JoinHostPort h ''25'')) (take (Suc i) (targets e d))
        @ handshake c \<and>
      (\<forall>a. EvDial a \<notin> set (handshake c))) \<and>
   (\<forall>h. CHR '':'' \<notin> set h \<longrightarrow> JoinHostPort h ''25'' = h @ '':25'')"
proof (intro conjI allI impI)
  show "targets e d =
     (if MXHosts (checkDomain e d True) = [] then [d] else MXHosts (checkDomain e d True))"
    by (simp add: targets_def probeTargets_def Let_def checkDomain_dns_fields)
next
  fix i and c :: conn
  assume a: "i < length (targets e d) \<and>
        attempt e (targets e d) i = Inr c \<and>
        (\<forall>j<i. isl (attempt e (targets e d) j))"
  then have 1: "i < length (targets e d)"
    and 2: "attempt e (targets e d) i = Inr c"
    and 3: "\<forall>j<i. isl (attempt e (targets e d) j)"
    by blast+
  note r = checkDomain_first_ok [OF 1 2 3]
  show "SMTPReach (checkDomain e d True)" by (simp add: r)
  show "LatencyMs (checkDomain e d True) = Milliseconds (since c)" by (simp add: r)
  show "Error (checkDomain e d True) = []" by (simp add: r dnsStage_rest)
  show "snd (checkDomainIO e d True) =
        [EvLookupMX d, EvLookupTXT d, EvLookupTXT (''_dmarc.'' @ d)]
        @ map (\<lambda>h. EvDial (JoinHostPort h ''25'')) (take (Suc i) (targets e d))
        @ handshake c"
    by (simp add: checkDomainIO_first_ok [OF 1 2 3])
  fix a show "EvDial a \<notin> set (handshake c)" by (rule handshake_no_dial)
next
  fix h assume "CHR '':'' \<notin> set h"
  then show "JoinHostPort h ''25'' = h @ '':25''" by (simp add: JoinHostPort_def)
qed

theorem probe_first_reachable_witness:
  "(1 < length [''mx1.example.com'', ''mx2.example.com'', ''mx3.example.com.''] \<and>
    attempt exampleNet [''mx1.example.com'', ''mx2.example.com'', ''mx3.example.com.''] 1 = Inr exampleConn \<and>
    isl (attempt exampleNet [''mx1.example.com'', ''mx2.example.com'', ''mx3.example.com.''] 0)) \<and>
   MXHosts (checkDomain exampleNet ''example.com'' True) =
     [''mx1.example.com'', ''mx2.example.com'', ''mx3.example.com.''] \<and>
   SMTPReach (checkDomain exampleNet ''example.com'' True) \<and>
   LatencyMs (checkDomain exampleNet ''example.com'' True) = 12 \<and>
   Error (checkDomain exampleNet ''example.com'' True) = [] \<and>
   snd (checkDomainIO exampleNet ''example.com'' True) =
     [EvLookupMX ''example.com'', EvLookupTXT ''example.com'', EvLookupTXT ''_dmarc.example.com'',
      EvDial ''mx1.example.com:25'', EvDial ''mx2.example.com:25'',
      EvRead (''220 ready'', None), EvWrite (''EHLO example.com'' @ CRLF),
      EvRead (''250-one'', None), EvRead (''250 two'', None),
      EvWrite (''QUIT'' @ CRLF), EvClose]"
proof -
  let ?T = "[''mx1.example.com'', ''mx2.example.com'', ''mx3.example.com.'']"
  have h: "1 < length ?T \<and> attempt exampleNet ?T 1 = Inr exampleConn \<and>
      (\<forall>j<1. isl (attempt exampleNet ?T j))"
    by (simp add: attempt_def exampleNet_def JoinHostPort_def exampleConn_def)
  have m: "MXHosts (checkDomain exampleNet ''example.com'' True) = ?T"
    using exampleTargets probe_first_reachable [of exampleNet "''example.com''"]
    by (simp split: if_splits)
  from h probe_first_reachable [of exampleNet "''example.com''"]
  have c: "SMTPReach (checkDomain exampleNet ''example.com'' True) \<and>
      LatencyMs (checkDomain exampleNet ''example.com'' True) = Milliseconds (since exampleConn) \<and>
      Error (checkDomain exampleNet ''example.com'' True) = [] \<and>
      snd (checkDomainIO exampleNet ''example.com'' True) =
        [EvLookupMX ''example.com'', EvLookupTXT ''example.com'', EvLookupTXT (''_dmarc.'' @ ''example.com'')]
        @ map (\<lambda>h. EvDial (JoinHostPort h ''25'')) (take (Suc 1) ?T) @ handshake exampleConn"
    unfolding exampleTargets by blast
  have ms: "Milliseconds (since exampleConn) = 12"
    by (simp add: Milliseconds_def exampleConn_def)
  have hs: "handshake exampleConn =
      [EvRead (''220 ready'', None), EvWrite (''EHLO example.com'' @ CRLF),
       EvRead (''250-one'', None), EvRead (''250 two'', None),
       EvWrite (''QUIT'' @ CRLF), EvClose]"
    by (simp add: handshake_def ReadString_def exampleConn_def lastLine_def)
  have ds: "map (\<lambda>h. EvDial (JoinHostPort h ''25'')) (take (Suc 1) ?T) =
      [EvDial ''mx1.example.com:25'', EvDial ''mx2.example.com:25'']"
    by (simp add: JoinHostPort_def)
  from h m c show ?thesis unfolding ms hs ds by simp
qed

lemma checkDomain_local:
  assumes mx: "LookupMX e' d = LookupMX e d" and tx: "LookupTXT e' d = LookupTXT e d"
    and dm: "LookupTXT e' (''_dmarc.'' @ d) = LookupTXT e (''_dmarc.'' @ d)"
    and same: "\<forall>i<length (targets e d).
              attempt e' (targets e d) i = attempt e (targets e d) i"
  shows "checkDomain e' d smtp = checkDomain e d smtp"
proof (cases smtp)
  case False
  then show ?thesis by (simp add: checkDomain_no_smtp dnsStage_cong [OF mx tx dm])
next
  case True
  then have s: "smtp = True" by simp
  note dns = dnsStage_cong [OF mx tx dm]
  have tg: "targets e' d = targets e d" by (simp add: targets_def dns)
  show ?thesis
  proof (cases "\<forall>i<length (targets e d). isl (attempt e (targets e d) i)")
    case allfail: True
    then have allfail': "\<forall>i<length (targets e' d). isl (attempt e' (targets e' d) i)"
      using same by (simp add: dns tg)
    have "length (targets e d) - 1 < length (targets e d)"
      using targets_nonempty [of e d] by (cases "targets e d") auto
    with same have "attempt e' (targets e d) (length (targets e d) - 1)
        = attempt e (targets e d) (length (targets e d) - 1)"
      by blast
    then show ?thesis
      by (simp add: s checkDomain_all_fail [OF allfail] checkDomain_all_fail [OF allfail'] dns tg)
  next
    case False
    then obtain i where i: "i < length (targets e d)"
      "\<not> isl (attempt e (targets e d) i)"
      "\<forall>j<i. isl (attempt e (targets e d) j)"
      by (rule first_success)
    from i(2) obtain c where c: "attempt e (targets e d) i = Inr c"
      by (cases "attempt e (targets e d) i") auto
    have 1: "i < length (targets e' d)" using i(1) by (simp add: dns tg)
    have 2: "attempt e' (targets e' d) i = Inr c" using same i(1) c by (simp add: dns tg)
    have 3: "\<forall>j<i. isl (attempt e' (targets e' d) j)"
      using same i(1) i(3) by (simp add: dns tg)
    show ?thesis
      by (simp add: s checkDomain_first_ok [OF i(1) c i(3)] checkDomain_first_ok [OF 1 2 3] dns tg)
  qed
qed

text \<open>
  Claim C7. Connection errors having a non-empty text, \<open>Error\<close> is non-empty exactly
  when \<open>smtpCheck\<close> was set and the attempt on every target failed. In that case
  \<open>Error\<close> is the text of the error of the last attempt and \<open>SMTPReach\<close> is false. So
  a non-empty \<open>Error\<close> implies that \<open>smtpCheck\<close> was set and \<open>SMTPReach\<close> is false.
  The outcome for a domain is fixed by the answers to its own three lookups and to the
  attempts on its own targets: what the network does for any other name has no effect.
\<close>

theorem error_message:
  "((\<forall>k a err. DialContext e k a = Inl err \<longrightarrow> err \<noteq> []) \<longrightarrow>
      (Error (checkDomain e d smtp) \<noteq> []) = (smtp \<and> allFail e d)) \<and>
   (smtp \<and> allFail e d \<longrightarrow>
      attempt e (targets e d) (length (targets e d) - 1) = Inl (Error (checkDomain e d smtp)) \<and>
      \<not> SMTPReach (checkDomain e d smtp)) \<and>
   (Error (checkDomain e d smtp) \<noteq> [] \<longrightarrow>
      smtp \<and> allFail e d \<and> \<not> SMTPReach (checkDomain e d smtp)) \<and>
   (\<forall>e'. LookupMX e' d = LookupMX e d \<and> LookupTXT e' d = LookupTXT e d \<and>
         LookupTXT e' (''_dmarc.'' @ d) = LookupTXT e (''_dmarc.'' @ d) \<and>
         (\<forall>i<length (targets e d).
            attempt e' (targets e d) i = attempt e (targets e d) i) \<longrightarrow>
       checkDomain e' d smtp = checkDomain e d smtp)"
proof -
  let ?T = "targets e d"
  let ?fail = "\<forall>i<length ?T. isl (attempt e ?T i)"
  have off: "\<not> smtp \<Longrightarrow> Error (checkDomain e d smtp) = []"
    by (simp add: checkDomain_no_smtp dnsStage_rest)
  have fail: "smtp \<Longrightarrow> ?fail \<Longrightarrow>
      Error (checkDomain e d smtp) = projl (attempt e ?T (length ?T - 1)) \<and>
      \<not> SMTPReach (checkDomain e d smtp)"
  proof -
    assume "smtp" and f: ?fail
    then have s: "smtp = True" by simp
    show ?thesis by (simp add: s checkDomain_all_fail [OF f] dnsStage_rest)
  qed
  have ok: "smtp \<Longrightarrow> \<not> ?fail \<Longrightarrow> Error (checkDomain e d smtp) = []"
  proof -
    assume "smtp" and f: "\<not> ?fail"
    then have s: "smtp = True" by simp
    from f obtain c :: conn where "checkDomain e d True =
       (dnsStage e d)\<lparr>SMTPReach := True, LatencyMs := Milliseconds (since c)\<rparr>"
      by (rule checkDomain_some_ok)
    then show ?thesis by (simp add: s dnsStage_rest)
  qed
  have nonempty: "\<forall>k a err. DialContext e k a = Inl err \<longrightarrow> err \<noteq> [] \<Longrightarrow> ?fail \<Longrightarrow>
      projl (attempt e ?T (length ?T - 1)) \<noteq> []"
  proof -
    assume ne: "\<forall>k a err. DialContext e k a = Inl err \<longrightarrow> err \<noteq> []" and f: ?fail
    have "length ?T - 1 < length ?T"
      using targets_nonempty [of e d] by (cases ?T) auto
    with f have "isl (attempt e ?T (length ?T - 1))" by blast
    then obtain err where err: "attempt e ?T (length ?T - 1) = Inl err"
      by (cases "attempt e ?T (length ?T - 1)") auto
    with ne have "err \<noteq> []" unfolding attempt_def by blast
    with err show ?thesis by simp
  qed
  have 1: "(\<forall>k a err. DialContext e k a = Inl err \<longrightarrow> err \<noteq> []) \<longrightarrow>
      (Error (checkDomain e d smtp) \<noteq> []) = (smtp \<and> ?fail)"
    using off fail ok nonempty by metis
  have inl: "?fail \<Longrightarrow> attempt e ?T (length ?T - 1) = Inl (projl (attempt e ?T (length ?T - 1)))"
  proof -
    assume f: ?fail
    have "length ?T - 1 < length ?T"
      using targets_nonempty [of e d] by (cases ?T) auto
    with f have "isl (attempt e ?T (length ?T - 1))" by blast
    then show ?thesis by simp
  qed
  have 2: "smtp \<and> ?fail \<longrightarrow>
      attempt e ?T (length ?T - 1) = Inl (Error (checkDomain e d smtp)) \<and>
      \<not> SMTPReach (checkDomain e d smtp)"
    using fail inl by metis
  have 3: "Error (checkDomain e d smtp) \<noteq> [] \<longrightarrow>
      smtp \<and> ?fail \<and> \<not> SMTPReach (checkDomain e d smtp)"
    using off fail ok by metis
  have 4: "\<forall>e'. LookupMX e' d = LookupMX e d \<and> LookupTXT e' d = LookupTXT e d \<and>
         LookupTXT e' (''_dmarc.'' @ d) = LookupTXT e (''_dmarc.'' @ d) \<and>
         (\<forall>i<length ?T. attempt e' ?T i = attempt e ?T i) \<longrightarrow>
       checkDomain e' d smtp = checkDomain e d smtp"
    using checkDomain_local by blast
  from 1 2 3 4 show ?thesis unfolding allFail_def by blast
qed

theorem error_message_witness:
  "\<not> (\<exists>k a. DialContext exampleNet k a = Inl []) \<and>
   isl (attempt exampleNet [''nowhere.net''] 0) \<and>
   Error (checkDomain exampleNet ''nowhere.net'' True) = ''dial tcp nowhere.net:25: connection refused'' \<and>
   \<not> SMTPReach (checkDomain exampleNet ''nowhere.net'' True) \<and>
   Error (checkDomain exampleNet ''nowhere.net'' False) = [] \<and>
   Error (checkDomain exampleNet ''example.com'' True) = [] \<and>
   (LookupMX shiftedNet ''nowhere.net'' = LookupMX exampleNet ''nowhere.net'' \<and>
    LookupTXT shiftedNet ''nowhere.net'' = LookupTXT exampleNet ''nowhere.net'' \<and>
    LookupTXT shiftedNet (''_dmarc.'' @ ''nowhere.net'') = LookupTXT exampleNet (''_dmarc.'' @ ''nowhere.net'') \<and>
    attempt shiftedNet [''nowhere.net''] 0 = attempt exampleNet [''nowhere.net''] 0) \<and>
   checkDomain shiftedNet ''nowhere.net'' True = checkDomain exampleNet ''nowhere.net'' True \<and>
   attempt shiftedNet [''mx1.example.com''] 0 \<noteq> attempt exampleNet [''mx1.example.com''] 0"
proof -
  have h0: "\<forall>k a err. DialContext exampleNet k a = Inl err \<longrightarrow> err \<noteq> []"
    by (simp add: exampleNet_def)
  then have h0': "\<not> (\<exists>k a. DialContext exampleNet k a = Inl [])"
    by blast
  have h1: "isl (attempt exampleNet [''nowhere.net''] 0)"
    by (simp add: attempt_def exampleNet_def JoinHostPort_def)
  then have f: "True \<and> allFail exampleNet ''nowhere.net''"
    by (simp add: allFail_def nowhereTargets)
  note nowhere = error_message [of exampleNet "''nowhere.net''" True]
  from nowhere [THEN conjunct2, THEN conjunct1] f
  have "attempt exampleNet (targets exampleNet ''nowhere.net'')
          (length (targets exampleNet ''nowhere.net'') - 1) =
        Inl (Error (checkDomain exampleNet ''nowhere.net'' True)) \<and>
      \<not> SMTPReach (checkDomain exampleNet ''nowhere.net'' True)"
    by (rule mp)
  then have c1: "Error (checkDomain exampleNet ''nowhere.net'' True) =
        ''dial tcp nowhere.net:25: connection refused'' \<and>
      \<not> SMTPReach (checkDomain exampleNet ''nowhere.net'' True)"
    unfolding nowhereTargets by (simp add: attempt_def exampleNet_def JoinHostPort_def)
  have "(Error (checkDomain exampleNet ''nowhere.net'' False) \<noteq> []) =
      (False \<and> allFail exampleNet ''nowhere.net'')"
    using error_message [of exampleNet "''nowhere.net''" False, THEN conjunct1] h0 by (rule mp)
  then have c2: "Error (checkDomain exampleNet ''nowhere.net'' False) = []"
    by simp
  have ok: "\<not> allFail exampleNet ''example.com''"
  proof
    assume "allFail exampleNet ''example.com''"
    then have "isl (attempt exampleNet [''mx1.example.com'', ''mx2.example.com'', ''mx3.example.com.''] 1)"
      by (simp add: allFail_def exampleTargets)
    then show False by (simp add: attempt_def exampleNet_def JoinHostPort_def)
  qed
  have "(Error (checkDomain exampleNet ''example.com'' True) \<noteq> []) =
      (True \<and> allFail exampleNet ''example.com'')"
    using error_message [of exampleNet "''example.com''" True, THEN conjunct1] h0 by (rule mp)
  with ok have c3: "Error (checkDomain exampleNet ''example.com'' True) = []"
    by blast
  have h4: "LookupMX shiftedNet ''nowhere.net'' = LookupMX exampleNet ''nowhere.net'' \<and>
    LookupTXT shiftedNet ''nowhere.net'' = LookupTXT exampleNet ''nowhere.net'' \<and>
    LookupTXT shiftedNet (''_dmarc.'' @ ''nowhere.net'') = LookupTXT exampleNet (''_dmarc.'' @ ''nowhere.net'') \<and>
    attempt shiftedNet [''nowhere.net''] 0 = attempt exampleNet [''nowhere.net''] 0"
    by (simp add: shiftedNet_def attempt_def exampleNet_def JoinHostPort_def)
  then have h4': "LookupMX shiftedNet ''nowhere.net'' = LookupMX exampleNet ''nowhere.net'' \<and>
    LookupTXT shiftedNet ''nowhere.net'' = LookupTXT exampleNet ''nowhere.net'' \<and>
    LookupTXT shiftedNet (''_dmarc.'' @ ''nowhere.net'') = LookupTXT exampleNet (''_dmarc.'' @ ''nowhere.net'') \<and>
    (\<forall>i<length (targets exampleNet ''nowhere.net'').
       attempt shiftedNet (targets exampleNet ''nowhere.net'') i =
       attempt exampleNet (targets exampleNet ''nowhere.net'') i)"
    by (simp add: nowhereTargets)
  from nowhere [THEN conjunct2, THEN conjunct2, THEN conjunct2, THEN spec, of shiftedNet] h4'
  have c4: "checkDomain shiftedNet ''nowhere.net'' True = checkDomain exampleNet ''nowhere.net'' True"
    by (rule mp)
  have c5: "attempt shiftedNet [''mx1.example.com''] 0 \<noteq> attempt exampleNet [''mx1.example.com''] 0"
    by (simp add: shiftedNet_def attempt_def exampleNet_def JoinHostPort_def)
  from h0' h1 c1 c2 c3 h4 c4 c5 show ?thesis by blast
qed

section \<open>Properties of the pipeline\<close>

subsection \<open>The order of the sort\<close>

lemma lessString_less: "lessString a b = (a < b)"
  by (induction a b rule: lessString.induct) (auto simp add: less_char_def)

lemma byDomain_less: "byDomain a b = (Domain' a < Domain' b)"
  by (simp add: byDomain_def lessString_less)

lemma sorted_byDomain: "sorted_wrt (\<lambda>a b. \<not> byDomain b a) out = sorted (map Domain' out)"
  by (simp add: byDomain_less sorted_map not_less)

lemma ex_sorted_perm: "\<exists>out. mset out = mset xs \<and> sorted_wrt (\<lambda>a b. \<not> byDomain b a) out"
proof -
  have "mset (sort_key Domain' xs) = mset xs \<and> sorted (map Domain' (sort_key Domain' xs))"
    by simp
  then show ?thesis unfolding sorted_byDomain by blast
qed

subsection \<open>Every step decreases the weight and keeps the invariant\<close>

lemma step_weight: "step s s' \<Longrightarrow> weight s' < weight s"
  by (induction rule: step.induct) (auto simp add: weight_def)

lemma checkDomain_Domain: "Domain' (checkDomain e d smtp) = d"
  by (simp add: checkDomain_dns_fields dnsStage_Domain)

lemma step_const: "step s s' \<Longrightarrow> smtpCheck s' = smtpCheck s \<and> tick s' = tick s"
  by (induction rule: step.induct) auto

lemma step_pending:
  "step s s' \<Longrightarrow>
   pending s' + mset (map Domain' (collected s')) = pending s + mset (map Domain' (collected s))"
proof (induction rule: step.induct)
  case (sort_emit s out)
  then have "image_mset Domain' (mset out) = image_mset Domain' (mset (collected s))" by simp
  then show ?case by (simp add: pending_def)
qed (auto simp add: pending_def checkDomain_Domain)

lemma step_inv:
  assumes "step s s'" and "inv domains s"
  shows "inv domains s'"
proof -
  have 1: "pending s' + mset (map Domain' (collected s')) = mset domains"
    using step_pending [OF assms(1)] assms(2) by (simp add: inv_def)
  have 2: "jobsClosed s' \<longrightarrow> queue s' = []"
    using assms by (induction rule: step.induct) (auto simp add: inv_def)
  have 3: "WDone \<in> set (workers s') \<longrightarrow> jobsClosed s'"
    using assms by (induction rule: step.induct) (auto simp add: inv_def)
  have 4: "mainAt s' \<noteq> MWait \<longrightarrow> list_all (\<lambda>w. w = WDone) (workers s')"
    using assms by (induction rule: step.induct) (auto simp add: inv_def)
  have 5: "resultsClosed s' = (mainAt s' \<noteq> MWait)"
    using assms by (induction rule: step.induct) (auto simp add: inv_def)
  have 6: "collector s' = CDone \<longrightarrow> resultsClosed s'"
    using assms by (induction rule: step.induct) (auto simp add: inv_def)
  have 7: "mainAt s' = MEmit \<longrightarrow>
         collector s' = CDone \<and> sorted_wrt (\<lambda>a b. \<not> byDomain b a) (collected s')"
    using assms by (induction rule: step.induct) (auto simp add: inv_def)
  have 8: "\<forall>r\<in>outcomes s'. \<exists>e. r = checkDomain e (Domain' r) (smtpCheck s')"
    using assms
  proof (induction rule: step.induct)
    case (check s ws1 d ws2 e)
    then show ?case by (auto simp add: inv_def outcomes_def checkDomain_Domain)
  next
    case (sort_emit s out)
    from sort_emit(3) have "set out = set (collected s)" by (rule mset_eq_setD)
    with sort_emit show ?case by (auto simp add: inv_def outcomes_def)
  qed (auto simp add: inv_def outcomes_def)
  have 9: "\<not> tick s' \<longrightarrow> (\<forall>d. WTick d \<notin> set (workers s'))"
    using assms by (induction rule: step.induct) (auto simp add: inv_def)
  from 1 2 3 4 5 6 7 8 9 show ?thesis unfolding inv_def by blast
qed

lemma steps_inv: "step\<^sup>*\<^sup>* s s' \<Longrightarrow> inv domains s \<Longrightarrow> inv domains s'"
  by (induction rule: rtranclp_induct) (auto intro: step_inv)

lemma no_infinite_run: "\<not> (\<exists>f. \<forall>n. step (f n) (f (Suc n)))"
proof
  assume "\<exists>f. \<forall>n. step (f n) (f (Suc n))"
  then obtain f where f: "\<forall>n. step (f n) (f (Suc n))" by blast
  have "weight (f n) + n \<le> weight (f 0)" for n
  proof (induction n)
    case 0
    show ?case by simp
  next
    case (Suc n)
    from f have "weight (f (Suc n)) < weight (f n)" by (simp add: step_weight)
    with Suc show ?case by simp
  qed
  from this [of "Suc (weight (f 0))"] show False by simp
qed

subsection \<open>No deadlock\<close>

lemma worker_cases:
  obtains (tick) ws1 d ws2 where "ws = ws1 @ WTick d # ws2"
  | (check) ws1 d ws2 where "ws = ws1 @ WCheck d # ws2"
  | (send) ws1 r ws2 where "ws = ws1 @ WSend r # ws2"
  | (recv) ws1 ws2 where "ws = ws1 @ WRecv # ws2"
  | (exited) "list_all (\<lambda>w. w = WDone) ws"
proof (cases "list_all (\<lambda>w. w = WDone) ws")
  case True
  then show ?thesis by (rule exited)
next
  case False
  then obtain w where "w \<in> set ws" "w \<noteq> WDone" by (auto simp add: list_all_iff)
  then obtain ws1 ws2 where "ws = ws1 @ w # ws2" by (auto dest: split_list)
  with \<open>w \<noteq> WDone\<close> tick check send recv show ?thesis by (cases w) auto
qed

lemma progress:
  assumes "inv domains s" and "mainAt s \<noteq> MEmit"
  shows "\<exists>s'. step s s'"
proof (cases "collector s")
  case (CAppend r)
  then show ?thesis by (blast intro: append_result)
next
  case CRecv
  show ?thesis
  proof (cases "workers s" rule: worker_cases)
    case (tick ws1 d ws2)
    then show ?thesis by (blast intro: recv_tick)
  next
    case (check ws1 d ws2)
    then show ?thesis by (blast intro: step.check)
  next
    case (send ws1 r ws2)
    with assms(1) have "\<not> resultsClosed s" by (auto simp add: inv_def)
    with send CRecv show ?thesis by (blast intro: send_result)
  next
    case (recv ws1 ws2)
    show ?thesis
    proof (cases "queue s")
      case (Cons d ds)
      with recv show ?thesis by (blast intro: send_job)
    next
      case Nil
      with recv show ?thesis by (cases "jobsClosed s") (blast intro: worker_done close_jobs)+
    qed
  next
    case exited
    show ?thesis
    proof (cases "mainAt s")
      case MWait
      with exited show ?thesis by (blast intro: wait_close)
    next
      case MClosed
      with assms(1) have "resultsClosed s" by (simp add: inv_def)
      with CRecv show ?thesis by (blast intro: collector_done)
    next
      case MEmit
      with assms(2) show ?thesis by simp
    qed
  qed
next
  case CDone
  with assms have m: "mainAt s = MClosed" by (cases "mainAt s") (auto simp add: inv_def)
  obtain out where "mset out = mset (collected s)" "sorted_wrt (\<lambda>a b. \<not> byDomain b a) out"
    using ex_sorted_perm by blast
  with m CDone show ?thesis by (blast intro: sort_emit)
qed

lemma reaches_emit:
  "inv domains s \<Longrightarrow> \<exists>s'. step\<^sup>*\<^sup>* s s' \<and> mainAt s' = MEmit"
proof (induction "weight s" arbitrary: s rule: less_induct)
  case less
  show ?case
  proof (cases "mainAt s = MEmit")
    case True
    then show ?thesis by blast
  next
    case False
    with less.prems obtain s1 where s1: "step s s1" using progress by blast
    then have "weight s1 < weight s" by (rule step_weight)
    moreover have "inv domains s1" using s1 less.prems by (rule step_inv)
    ultimately obtain s' where "step\<^sup>*\<^sup>* s1 s'" "mainAt s' = MEmit"
      using less.hyps by blast
    with s1 show ?thesis by (blast intro: converse_rtranclp_into_rtranclp)
  qed
qed

subsection \<open>The outcome of a run\<close>

lemma inv_start:
  assumes "start domains smtp concurrency rate = Started s0"
  shows "inv domains s0"
proof -
  from assms have s0: "s0 = \<lparr>smtpCheck = smtp, tick = (rate > 0), queue = domains, jobsClosed = False,
         workers = replicate (nat concurrency) WRecv, collector = CRecv, collected = [],
         resultsClosed = False, mainAt = MWait\<rparr>"
    by (auto simp add: start_def split: if_splits)
  have "concat (map held (replicate n WRecv)) = []" for n
    by (induction n) auto
  moreover have "concat (map made (replicate n WRecv)) = []" for n
    by (induction n) auto
  ultimately show ?thesis
    by (simp add: s0 inv_def pending_def outcomes_def)
qed

lemma emitted_all:
  assumes "inv domains s" and "mainAt s = MEmit" and "workers s \<noteq> []"
  shows "mset (map Domain' (collected s)) = mset domains"
proof -
  from assms(1,2) have d: "list_all (\<lambda>w. w = WDone) (workers s)" and c: "collector s = CDone"
    by (simp_all add: inv_def)
  from d assms(3) have "WDone \<in> set (workers s)"
    by (cases "workers s") auto
  with assms(1) have q: "queue s = []" by (simp add: inv_def)
  from d have "concat (map held (workers s)) = []"
    by (induction "workers s") (auto simp add: list_all_iff)
  with q c have "pending s = {#}" by (simp add: pending_def)
  with assms(1) show ?thesis by (simp add: inv_def)
qed

lemma step_workers_length: "step s s' \<Longrightarrow> length (workers s') = length (workers s)"
  by (induction rule: step.induct) auto

lemma steps_workers_length: "step\<^sup>*\<^sup>* s s' \<Longrightarrow> length (workers s') = length (workers s)"
  by (induction rule: rtranclp_induct) (auto simp add: step_workers_length)

lemma steps_const: "step\<^sup>*\<^sup>* s s' \<Longrightarrow> smtpCheck s' = smtpCheck s"
  by (induction rule: rtranclp_induct) (auto simp add: step_const)

text \<open>
  Once \<open>results\<close> is closed no worker is left to send on it, so the panic of a send
  on a closed channel cannot happen.
\<close>

lemma no_send_on_closed:
  assumes "start domains smtp concurrency rate = Started s0" and "step\<^sup>*\<^sup>* s0 s"
    and "resultsClosed s"
  shows "WSend r \<notin> set (workers s)"
proof -
  have "inv domains s" using assms(2) inv_start [OF assms(1)] by (rule steps_inv)
  with assms(3) have "list_all (\<lambda>w. w = WDone) (workers s)" by (simp add: inv_def)
  then show ?thesis by (auto simp add: list_all_iff)
qed

text \<open>Without a rate limit no worker ever waits for the ticker.\<close>

lemma unlimited_never_waits:
  assumes "rate \<le> 0" and "start domains smtp concurrency rate = Started s0" and "step\<^sup>*\<^sup>* s0 s"
  shows "WTick d \<notin> set (workers s)"
proof -
  have "inv domains s" using assms(3) inv_start [OF assms(2)] by (rule steps_inv)
  moreover have "tick s0 = False" using assms(1,2) by (auto simp add: start_def split: if_splits)
  moreover have "tick s = tick s0" using assms(3)
    by (induction rule: rtranclp_induct) (auto simp add: step_const)
  ultimately show ?thesis by (simp add: inv_def)
qed

lemma start_cases:
  assumes "rate \<le> 1000000000"
  shows "start domains smtp concurrency rate =
     (if domains = [] then NoDomains
      else Started
        \<lparr>smtpCheck = smtp, tick = (rate > 0), queue = domains, jobsClosed = False,
         workers = replicate (nat concurrency) WRecv, collector = CRecv, collected = [],
         resultsClosed = False, mainAt = MWait\<rparr>)"
proof -
  have "0 < Second div rate" if "0 < rate"
    using that assms unfolding Second_def by (simp add: pos_imp_zdiv_pos_iff)
  then show ?thesis by (auto simp add: start_def)
qed

lemma emitted_correct:
  assumes st: "start domains smtp concurrency rate = Started s0"
    and w: "1 \<le> concurrency"
    and run: "step\<^sup>*\<^sup>* s0 s" and fin: "mainAt s = MEmit"
  shows "length (collected s) = length domains \<and>
       mset (map Domain' (collected s)) = mset domains \<and>
       sorted_wrt (\<lambda>a b. lessString a b \<or> a = b) (map Domain' (collected s)) \<and>
       map Domain' (collected s) = sort domains \<and>
       (\<forall>r\<in>set (collected s). \<exists>e. r = checkDomain e (Domain' r) smtp)"
proof -
  from st have s0: "workers s0 = replicate (nat concurrency) WRecv" "smtpCheck s0 = smtp"
    by (auto simp add: start_def split: if_splits)
  have i: "inv domains s" using run inv_start [OF st] by (rule steps_inv)
  have "length (workers s) = nat concurrency"
    using steps_workers_length [OF run] s0 by simp
  with w have "workers s \<noteq> []" by auto
  with i fin have m: "mset (map Domain' (collected s)) = mset domains"
    by (rule emitted_all)
  then have "size (mset (map Domain' (collected s))) = size (mset domains)" by simp
  then have l: "length (collected s) = length domains" by simp
  from i fin have "sorted_wrt (\<lambda>a b. \<not> byDomain b a) (collected s)" by (simp add: inv_def)
  then have so: "sorted (map Domain' (collected s))" by (simp add: sorted_byDomain)
  then have so': "sorted_wrt (\<lambda>a b. lessString a b \<or> a = b) (map Domain' (collected s))"
    by (simp add: lessString_less le_less [symmetric])
  have eq: "map Domain' (collected s) = sort domains"
    using properties_for_sort [OF m so] by (rule sym)
  from i have "\<forall>r\<in>outcomes s. \<exists>e. r = checkDomain e (Domain' r) (smtpCheck s)"
    by (simp add: inv_def)
  moreover have "smtpCheck s = smtp" using steps_const [OF run] s0 by simp
  moreover have "set (collected s) \<subseteq> outcomes s" by (auto simp add: outcomes_def)
  ultimately have "\<forall>r\<in>set (collected s). \<exists>e. r = checkDomain e (Domain' r) smtp"
    by auto
  with l m so' eq show ?thesis by blast
qed

text \<open>
  Claim C1, as amended. With at least one worker and a rate of at most \<open>10^9\<close> per
  second, every run over a list of \<open>K\<close> domains ends, and ends by handing exactly
  \<open>K\<close> outcomes to the encoder: one for every entry of the list, duplicates included,
  each the result of \<open>checkDomain\<close> on its domain, in ascending order of the domain
  under bytewise lexicographic comparison. No run deadlocks and none goes on for ever.
\<close>

theorem pipeline_outcomes:
  assumes "1 \<le> concurrency" and "rate \<le> 1000000000"
  shows "(\<exists>out. emits (start domains smtp concurrency rate) out) \<and>
    (\<forall>out. emits (start domains smtp concurrency rate) out \<longrightarrow>
       length out = length domains \<and>
       mset (map Domain' out) = mset domains \<and>
       sorted_wrt (\<lambda>a b. lessString a b \<or> a = b) (map Domain' out) \<and>
       map Domain' out = sort domains \<and>
       (\<forall>r\<in>set out. \<exists>e. r = checkDomain e (Domain' r) smtp)) \<and>
    (\<forall>s0 s. start domains smtp concurrency rate = Started s0 \<and> step\<^sup>*\<^sup>* s0 s \<longrightarrow>
       (\<exists>s'. step\<^sup>*\<^sup>* s s' \<and> mainAt s' = MEmit)) \<and>
    \<not> (\<exists>f. \<forall>n. step (f n) (f (Suc n)))"
proof (cases "domains = []")
  case True
  then have st: "start domains smtp concurrency rate = NoDomains"
    by (simp add: start_def)
  have 1: "\<exists>out. emits (start domains smtp concurrency rate) out"
    unfolding st by (blast intro: emits_none)
  have 2: "\<forall>out. emits (start domains smtp concurrency rate) out \<longrightarrow>
       length out = length domains \<and>
       mset (map Domain' out) = mset domains \<and>
       sorted_wrt (\<lambda>a b. lessString a b \<or> a = b) (map Domain' out) \<and>
       map Domain' out = sort domains \<and>
       (\<forall>r\<in>set out. \<exists>e. r = checkDomain e (Domain' r) smtp)"
    unfolding st using True by (auto elim: emits.cases)
  have 3: "\<forall>s0 s. start domains smtp concurrency rate = Started s0 \<and> step\<^sup>*\<^sup>* s0 s \<longrightarrow>
       (\<exists>s'. step\<^sup>*\<^sup>* s s' \<and> mainAt s' = MEmit)"
    unfolding st by simp
  from 1 2 3 no_infinite_run show ?thesis by blast
next
  case False
  with start_cases [OF assms(2)] obtain s0 where st: "start domains smtp concurrency rate = Started s0"
    by auto
  have i0: "inv domains s0" using st by (rule inv_start)
  then obtain s where s: "step\<^sup>*\<^sup>* s0 s" "mainAt s = MEmit"
    using reaches_emit by blast
  then have 1: "\<exists>out. emits (start domains smtp concurrency rate) out"
    unfolding st by (blast intro: emits_sorted)
  have 2: "\<forall>out. emits (start domains smtp concurrency rate) out \<longrightarrow>
       length out = length domains \<and>
       mset (map Domain' out) = mset domains \<and>
       sorted_wrt (\<lambda>a b. lessString a b \<or> a = b) (map Domain' out) \<and>
       map Domain' out = sort domains \<and>
       (\<forall>r\<in>set out. \<exists>e. r = checkDomain e (Domain' r) smtp)"
  proof (intro allI impI)
    fix out
    assume "emits (start domains smtp concurrency rate) out"
    then obtain t where t: "step\<^sup>*\<^sup>* s0 t" "mainAt t = MEmit" "out = collected t"
      unfolding st by (auto elim: emits.cases)
    from emitted_correct [OF st assms(1) t(1) t(2)]
    show "length out = length domains \<and>
       mset (map Domain' out) = mset domains \<and>
       sorted_wrt (\<lambda>a b. lessString a b \<or> a = b) (map Domain' out) \<and>
       map Domain' out = sort domains \<and>
       (\<forall>r\<in>set out. \<exists>e. r = checkDomain e (Domain' r) smtp)"
      unfolding t(3) .
  qed
  have 3: "\<forall>s0 s. start domains smtp concurrency rate = Started s0 \<and> step\<^sup>*\<^sup>* s0 s \<longrightarrow>
       (\<exists>s'. step\<^sup>*\<^sup>* s s' \<and> mainAt s' = MEmit)"
  proof (intro allI impI)
    fix t0 t
    assume "start domains smtp concurrency rate = Started t0 \<and> step\<^sup>*\<^sup>* t0 t"
    then have "step\<^sup>*\<^sup>* s0 t" using st by simp
    then have "inv domains t" using i0 by (rule steps_inv)
    then show "\<exists>s'. step\<^sup>*\<^sup>* t s' \<and> mainAt s' = MEmit" by (rule reaches_emit)
  qed
  from 1 2 3 no_infinite_run show ?thesis by blast
qed

theorem pipeline_outcomes_witness:
  "\<exists>out. emits (start [''b.org'', ''a.com'', ''b.org''] True 2 5) out \<and>
     map Domain' out = [''a.com'', ''b.org'', ''b.org''] \<and> length out = 3"
proof -
  have h1: "(1::int) \<le> 2" and h2: "(5::int) \<le> 1000000000" by simp_all
  note t = pipeline_outcomes [OF h1 h2, of "[''b.org'', ''a.com'', ''b.org'']" True]
  from t obtain out where out: "emits (start [''b.org'', ''a.com'', ''b.org''] True 2 5) out"
    by blast
  with t have "map Domain' out = sort [''b.org'', ''a.com'', ''b.org'']" "length out = length [''b.org'', ''a.com'', ''b.org'']"
    by blast+
  moreover have "sort [''b.org'', ''a.com'', ''b.org''] = [''a.com'', ''b.org'', ''b.org'']"
    by code_simp
  ultimately show ?thesis using out by auto
qed

text \<open>
  Without the two conditions the outcomes are lost. With \<open>concurrency = 0\<close> no worker
  is started, \<open>wg.Wait()\<close> returns at once and \<open>main\<close> emits the empty sequence for
  a list of one domain. With \<open>rate = 2000000000\<close> the interval of the ticker is
  \<open>1000000000 / 2000000000 = 0\<close> and \<open>time.NewTicker\<close> panics before any worker starts.
\<close>

theorem pipeline_outcomes_counterexample:
  "emits (start [''a.com''] False 0 0) [] \<and>
   length ([] :: Result list) \<noteq> length [''a.com''] \<and>
   start [''a.com''] False 8 2000000000 = TickerPanic"
proof -
  define s0 where "s0 =
      \<lparr>smtpCheck = False, tick = False, queue = [''a.com''], jobsClosed = False,
       workers = [], collector = CRecv, collected = [], resultsClosed = False, mainAt = MWait\<rparr>"
  define s1 where "s1 = s0\<lparr>resultsClosed := True, mainAt := MClosed\<rparr>"
  define s2 where "s2 = s1\<lparr>collector := CDone\<rparr>"
  define s3 where "s3 = s2\<lparr>collected := [], mainAt := MEmit\<rparr>"
  have st: "start [''a.com''] False 0 0 = Started s0"
    by (simp add: start_def s0_def)
  have 1: "step s0 s1"
    unfolding s1_def by (rule wait_close) (simp_all add: s0_def)
  have 2: "step s1 s2"
    unfolding s2_def by (rule collector_done) (simp_all add: s1_def s0_def)
  have 3: "step s2 s3"
    unfolding s3_def by (rule sort_emit) (simp_all add: s2_def s1_def s0_def)
  from 1 2 3 have "step\<^sup>*\<^sup>* s0 s3"
    by (meson rtranclp.rtrancl_into_rtrancl rtranclp.rtrancl_refl)
  moreover have "mainAt s3 = MEmit"
    by (simp add: s3_def)
  ultimately have "emits (Started s0) (collected s3)"
    by (rule emits_sorted)
  then have a: "emits (start [''a.com''] False 0 0) []"
    by (simp add: st s3_def)
  have b: "start [''a.com''] False 8 2000000000 = TickerPanic"
    by (simp add: start_def Second_def)
  from a b show ?thesis by simp
qed

end
